theory Spec2Isabelle
  imports Complex_Main "HOL-Library.Multiset" "HOL-Library.Sublist"
begin

section \<open>Python strings and paths\<close>

text \<open>
  A Python \<open>str\<close> is a sequence of Unicode code points, so it is modelled as a list of
  code points (\<open>nat\<close>), not as a list of bytes: \<open>str.split()\<close>, \<open>\s\<close> and \<open>\d\<close> of the
  source all work on code points, and the minus sign U+2212 of the pattern is one of them.
\<close>

type_synonym ustr = "nat list"

definition ustr :: "string \<Rightarrow> ustr" where
  "ustr s = map of_char s"

text \<open>
  Whitespace as \<open>str.split()\<close>, \<open>str.isspace()\<close> and the pattern class \<open>\s\<close> of a \<open>str\<close>
  pattern see it: U+0009..U+000D, U+001C..U+0020, U+0085, U+00A0, U+1680,
  U+2000..U+200A, U+2028, U+2029, U+202F, U+205F, U+3000.
\<close>

definition py_isspace :: "nat \<Rightarrow> bool" where
  "py_isspace c \<longleftrightarrow>
     (9 \<le> c \<and> c \<le> 13) \<or> (28 \<le> c \<and> c \<le> 32) \<or> c = 133 \<or> c = 160 \<or> c = 5760 \<or>
     (8192 \<le> c \<and> c \<le> 8202) \<or> c = 8232 \<or> c = 8233 \<or> c = 8239 \<or> c = 8287 \<or> c = 12288"

text \<open>
  \<open>s.split()\<close> without a separator: the maximal runs of non-whitespace, in order; no empty
  token. \<open>split_ws cur s\<close> carries the token being read.
\<close>

fun split_ws :: "ustr \<Rightarrow> ustr \<Rightarrow> ustr list" where
  "split_ws cur [] = (if cur = [] then [] else [cur])"
| "split_ws cur (c # cs) =
     (if py_isspace c then (if cur = [] then split_ws [] cs else cur # split_ws [] cs)
      else split_ws (cur @ [c]) cs)"

definition py_split :: "ustr \<Rightarrow> ustr list" where
  "py_split s = split_ws [] s"

text \<open>\<open>sep.join(tokens)\<close>.\<close>

fun py_join :: "ustr \<Rightarrow> ustr list \<Rightarrow> ustr" where
  "py_join sep [] = []"
| "py_join sep [t] = t"
| "py_join sep (t # u # ts) = t @ sep @ py_join sep (u # ts)"

text \<open>\<open>s.replace(" ", "_")\<close>: every U+0020 becomes U+005F.\<close>

definition replace_space :: "ustr \<Rightarrow> ustr" where
  "replace_space s = map (\<lambda>c. if c = 32 then 95 else c) s"

text \<open>\<open>s.rfind(c)\<close>: the index of the last occurrence, \<open>None\<close> for Python's \<open>-1\<close>.\<close>

fun rfind :: "nat \<Rightarrow> ustr \<Rightarrow> nat option" where
  "rfind c [] = None"
| "rfind c (x # xs) =
     (case rfind c xs of
        Some i \<Rightarrow> Some (Suc i)
      | None \<Rightarrow> if x = c then Some 0 else None)"

text \<open>\<open>s.split(sep)\<close> with a one-character separator: empty components are kept.\<close>

fun split_on :: "nat \<Rightarrow> ustr \<Rightarrow> ustr list" where
  "split_on sep [] = [[]]"
| "split_on sep (c # cs) =
     (if c = sep then [] # split_on sep cs
      else (case split_on sep cs of
              [] \<Rightarrow> [[c]]
            | t # ts \<Rightarrow> (c # t) # ts))"

text \<open>
  \<open>Path(s).name\<close> of a POSIX path: the last component that is neither empty nor \<open>.\<close>,
  the empty string when there is none.
\<close>

definition path_name :: "ustr \<Rightarrow> ustr" where
  "path_name s =
     (case rev (filter (\<lambda>x. x \<noteq> [] \<and> x \<noteq> [46]) (split_on 47 s)) of
        [] \<Rightarrow> []
      | x # _ \<Rightarrow> x)"


definition name_stem :: "ustr \<Rightarrow> ustr" where
  "name_stem n =
     (case rfind 46 n of
        Some i \<Rightarrow> if 0 < i \<and> Suc i < length n then take i n else n
      | None \<Rightarrow> n)"

text \<open>
  A \<open>pathlib.Path\<close> built as \<open>directory / component\<close>: the directory and the final
  component (\<open>.name\<close>). Every path of the program is built this way from a directory entry
  or from a stem with an extension appended, so the component holds no separator.
\<close>

datatype path = Path (parent: ustr) (name: ustr)

section \<open>Filename Classifier\<close>

text \<open>
  \<^verbatim>\<open>
  def extract_source_from_filename(filename: str) -> str:
      stem = Path(filename).stem
      tokens = stem.split()
      return tokens[-1] if tokens else ""
  \<close>
\<close>

definition extract_source_from_filename :: "ustr \<Rightarrow> ustr" where
  "extract_source_from_filename filename =
     (let stem = name_stem (path_name filename);
          tokens = py_split stem
      in if tokens \<noteq> [] then last tokens else [])"

section \<open>Arrays, containers and the surroundings of the program\<close>

text \<open>
  A decoded image is a two-dimensional array (\<open>np.array\<close> of a mode \<open>F\<close> image): its
  shape (height, width) and its pixels. The stacked volume is kept as the list of its
  slices along axis 0.
\<close>

datatype 'px ndarray2 = Array2 (shape: "nat \<times> nat") (pixels: "'px list")

text \<open>
  The objects of an opened HDF5 container, as \<open>visititems\<close> presents them: a group, or a
  dataset. A dataset carries the text that \<open>obj[()]\<close>, \<open>flatten().tobytes()\<close> and
  \<open>decode("utf-8", errors="ignore")\<close> produce from it, \<open>None\<close> when one of these raises.
  A container is the list of its named objects in visiting order.
\<close>

datatype h5obj = Group | Dataset "ustr option"

type_synonym h5file = "(ustr \<times> h5obj) list"

text \<open>The exceptions the pipeline can meet.\<close>

datatype exn =
    H5OpenError path
  | ImageDecodeError path
  | StackShapeError
  | MrcWriteError path

text \<open>
  What the program reads of its surroundings. \<open>dir_entries d\<close> is the listing of directory
  \<open>d\<close> in the order the operating system enumerates it, \<open>None\<close> when \<open>d\<close> is not a
  directory (it does not exist, or is a plain file); \<open>path_exists p\<close> is \<open>p.exists()\<close>;
  \<open>h5_open p\<close> is the container \<open>h5py.File(p, "r")\<close> opens, as \<open>visititems\<close> walks it,
  \<open>None\<close> when the open (or the walk) raises;
  \<open>image_open p\<close> is \<open>np.array(Image.open(p).convert("F"))\<close>, \<open>None\<close> when it raises;
  \<open>mrc_writable p\<close> tells whether \<open>write_mrc\<close> succeeds at \<open>p\<close>. \<open>to_float q\<close> is the
  floating-point number nearest to the rational \<open>q\<close>: the type \<open>'f\<close> stands for Python's
  floats under their order (the pattern of the extractor captures no NaN).
\<close>

record ('f, 'px) world =
  dir_entries :: "ustr \<Rightarrow> ustr list option"
  path_exists :: "path \<Rightarrow> bool"
  h5_open :: "path \<Rightarrow> h5file option"
  image_open :: "path \<Rightarrow> 'px ndarray2 option"
  mrc_writable :: "path \<Rightarrow> bool"
  to_float :: "rat \<Rightarrow> 'f"

text \<open>
  \<open>image_dir.glob("*" + ext)\<close>. pathlib answers with an empty iteration when the directory
  is not one (\<open>select_from\<close> tests \<open>is_dir\<close> first and raises nothing); otherwise it yields
  \<open>image_dir / entry\<close> for every entry matching the pattern, hidden ones and
  subdirectories included, in enumeration order. On POSIX the match is case-sensitive,
  so \<open>*.png\<close> matches exactly the entries that end with \<open>.png\<close>.
\<close>

definition glob_ext :: "('f, 'px, 'a) world_scheme \<Rightarrow> ustr \<Rightarrow> ustr \<Rightarrow> path list" where
  "glob_ext w image_dir ext =
     (case dir_entries w image_dir of
        None \<Rightarrow> []
      | Some entries \<Rightarrow> map (Path image_dir) (filter (suffix ext) entries))"

section \<open>Source Grouper\<close>

text \<open>
  \<^verbatim>\<open>
  def group_images_by_source(image_dir: Path):
      images = []
      for ext in ("*.png", "*.jpg", "*.jpeg", "*.tif", "*.tiff"):
          images.extend(image_dir.glob(ext))
      groups = {}
      for img in images:
          source = extract_source_from_filename(img.name)
          groups.setdefault(source, []).append(img)
      return groups
  \<close>
\<close>

definition image_exts :: "ustr list" where
  "image_exts = [ustr ''.png'', ustr ''.jpg'', ustr ''.jpeg'', ustr ''.tif'', ustr ''.tiff'']"

definition scan_images :: "('f, 'px, 'a) world_scheme \<Rightarrow> ustr \<Rightarrow> path list" where
  "scan_images w image_dir = concat (map (glob_ext w image_dir) image_exts)"

definition add_image :: "(ustr \<rightharpoonup> path list) \<Rightarrow> path \<Rightarrow> (ustr \<rightharpoonup> path list)" where
  "add_image groups img =
     (let source = extract_source_from_filename (name img)
      in groups(source \<mapsto> (case groups source of None \<Rightarrow> [] | Some l \<Rightarrow> l) @ [img]))"

definition group_images_by_source :: "('f, 'px, 'a) world_scheme \<Rightarrow> ustr \<Rightarrow> (ustr \<rightharpoonup> path list)" where
  "group_images_by_source w image_dir = foldl add_image Map.empty (scan_images w image_dir)"

section \<open>Metadata Locator\<close>

text \<open>
  \<^verbatim>\<open>
  def find_matching_emd(img_path: Path, emd_dir: Path):
      stem = img_path.stem
      tokens = stem.split()
      if len(tokens) < 2:
          return None
      emd_stem = " ".join(tokens[:-1])
      emd_path = emd_dir / f"{emd_stem}.emd"
      return emd_path if emd_path.exists() else None
  \<close>
\<close>

definition find_matching_emd :: "('f, 'px, 'a) world_scheme \<Rightarrow> path \<Rightarrow> ustr \<Rightarrow> path option" where
  "find_matching_emd w img_path emd_dir =
     (let stem = name_stem (name img_path);
          tokens = py_split stem
      in if length tokens < 2 then None
         else let emd_stem = py_join [32] (butlast tokens);
                  emd_path = Path emd_dir (emd_stem @ ustr ''.emd'')
              in if path_exists w emd_path then Some emd_path else None)"

section \<open>Angle Extractor\<close>

text \<open>
  The decimal digits of Unicode (category Nd; Unicode 14, as CPython 3.11 ships it): the
  class \<open>\d\<close> of a \<open>str\<close> pattern, and the digits \<open>float()\<close> converts. They come in
  runs of ten consecutive code points, valued 0 to 9; \<open>decimal_zeros\<close> lists the code
  point of each run's zero.
\<close>

definition decimal_zeros :: "nat list" where
  "decimal_zeros =
     [48, 1632, 1776, 1984, 2406, 2534, 2662, 2790, 2918, 3046, 3174,
      3302, 3430, 3558, 3664, 3792, 3872, 4160, 4240, 6112, 6160, 6470,
      6608, 6784, 6800, 6992, 7088, 7232, 7248, 42528, 43216, 43264, 43472,
      43504, 43600, 44016, 65296, 66720, 68912, 69734, 69872, 69942, 70096, 70384,
      70736, 70864, 71248, 71360, 71472, 71904, 72016, 72784, 73040, 73120, 92768,
      92864, 93008, 120782, 120792, 120802, 120812, 120822, 123200, 123632, 125264, 130032]"

definition py_decimal :: "nat \<Rightarrow> nat option" where
  "py_decimal c =
     (case filter (\<lambda>z. z \<le> c \<and> c < z + 10) decimal_zeros of
        [] \<Rightarrow> None
      | z # _ \<Rightarrow> Some (c - z))"

definition py_isdecimal :: "nat \<Rightarrow> bool" where
  "py_isdecimal c \<longleftrightarrow> py_decimal c \<noteq> None"

text \<open>
  \<open>name.lower()\<close>, as far as the test \<open>"metadata" in name.lower()\<close> can tell: the ASCII
  capitals are lowered. (No code point outside ASCII has one of the letters of
  \<open>metadata\<close> in its lower-case form, so the other code points do not matter to the test.)
\<close>

definition lower_char :: "nat \<Rightarrow> nat" where
  "lower_char c = (if 65 \<le> c \<and> c \<le> 90 then c + 32 else c)"

definition has_metadata :: "ustr \<Rightarrow> bool" where
  "has_metadata nm = sublist (ustr ''metadata'') (map lower_char nm)"

text \<open>
  The pattern of the source, searched with \<open>re.IGNORECASE\<close>:
  \<^verbatim>\<open>"alphatilt"\s*:\s*"?(M?-?\d+\.?\d*)"?\<close>
  where \<open>M\<close> is the minus sign U+2212 (code point 8722).

  \<open>ignorecase_match p c\<close>: the text character \<open>c\<close> matches the pattern character \<open>p\<close>
  under \<open>re.IGNORECASE\<close>, for the characters of this pattern: a letter matches its two
  ASCII cases, \<open>i\<close> moreover U+0130 and U+0131, and the quote matches itself only.
\<close>

definition ignorecase_match :: "nat \<Rightarrow> nat \<Rightarrow> bool" where
  "ignorecase_match p c \<longleftrightarrow>
     c = p \<or> (97 \<le> p \<and> p \<le> 122 \<and> c + 32 = p) \<or> (p = 105 \<and> (c = 304 \<or> c = 305))"

fun match_literal :: "ustr \<Rightarrow> ustr \<Rightarrow> ustr option" where
  "match_literal [] text = Some text"
| "match_literal (p # ps) [] = None"
| "match_literal (p # ps) (c # cs) =
     (if ignorecase_match p c then match_literal ps cs else None)"

text \<open>\<open>x?\<close> for one character \<open>x\<close>: what it consumes and what is left.\<close>

definition optional_char :: "nat \<Rightarrow> ustr \<Rightarrow> ustr \<times> ustr" where
  "optional_char x text =
     (case text of
        [] \<Rightarrow> ([], [])
      | c # cs \<Rightarrow> if c = x then ([c], cs) else ([], text))"

text \<open>
  The group \<open>(M?-?\d+\.?\d*)\<close> at the head of a text: the captured string. Each
  quantified item of the pattern is followed by an item that cannot match what it matches
  (white space, colon, quote, the two minus signs, digits and the dot are disjoint), so
  the greedy choice is the only one that can succeed and backtracking finds nothing else.
\<close>

definition match_number :: "ustr \<Rightarrow> ustr option" where
  "match_number text =
     (let (m1, t1) = optional_char 8722 text;
          (m2, t2) = optional_char 45 t1;
          ds = takeWhile py_isdecimal t2;
          t3 = dropWhile py_isdecimal t2
      in if ds = [] then None
         else let (dot, t4) = optional_char 46 t3;
                  fs = takeWhile py_isdecimal t4
              in Some (m1 @ m2 @ ds @ dot @ fs))"

text \<open>The whole pattern at the head of a text: group 1 of the match.\<close>

definition match_at :: "ustr \<Rightarrow> ustr option" where
  "match_at text =
     (case match_literal (ustr ''\"alphatilt\"'') text of
        None \<Rightarrow> None
      | Some t1 \<Rightarrow>
          (case dropWhile py_isspace t1 of
             [] \<Rightarrow> None
           | c # t2 \<Rightarrow>
               if c \<noteq> 58 then None
               else match_number (snd (optional_char 34 (dropWhile py_isspace t2)))))"

text \<open>\<open>re.search\<close>: the match at the leftmost position that has one.\<close>

fun re_search :: "ustr \<Rightarrow> ustr option" where
  "re_search [] = match_at []"
| "re_search (c # cs) =
     (case match_at (c # cs) of
        Some g \<Rightarrow> Some g
      | None \<Rightarrow> re_search cs)"

definition digits_value :: "ustr \<Rightarrow> nat" where
  "digits_value ds = foldl (\<lambda>acc c. 10 * acc + (case py_decimal c of None \<Rightarrow> 0 | Some d \<Rightarrow> d)) 0 ds"

text \<open>
  \<open>float(match.group(1))\<close> on a captured string: \<open>float()\<close> reads an optional ASCII
  minus sign, digits, and an optional dot with further digits, and gives the float nearest
  to that decimal number; it raises \<open>ValueError\<close> (here \<open>None\<close>) on anything else, in
  particular on U+2212, which it does not take for a sign. (The rest of the grammar of
  \<open>float()\<close>, such as exponents, cannot occur in a captured string and is left out.)
\<close>

definition float_of_group :: "(rat \<Rightarrow> 'f) \<Rightarrow> ustr \<Rightarrow> 'f option" where
  "float_of_group rnd g =
     (let (sign, t1) = optional_char 45 g;
          ds = takeWhile py_isdecimal t1;
          t2 = dropWhile py_isdecimal t1;
          (dot, t3) = optional_char 46 t2;
          fs = takeWhile py_isdecimal t3;
          rest = dropWhile py_isdecimal t3
      in if ds = [] \<or> rest \<noteq> [] then None
         else Some (rnd ((if sign = [] then 1 else - 1) *
                (of_nat (digits_value ds) + of_nat (digits_value fs) / 10 ^ length fs))))"

text \<open>
  \<^verbatim>\<open>
  def extract_alpha_tilt_from_emd(emd_path: Path):
      alpha_tilt = None
      def visitor(name, obj):
          nonlocal alpha_tilt
          if alpha_tilt is not None:
              return
          if not isinstance(obj, h5py.Dataset):
              return
          name_lower = name.lower()
          if "metadata" not in name_lower:
              return
          try:
              raw = obj[()]
              text = raw.flatten().tobytes().decode("utf-8", errors="ignore")
              match = re.search(PATTERN, text, re.IGNORECASE)
              if match:
                  alpha_tilt = float(match.group(1))
          except Exception:
              pass
      with h5py.File(emd_path, "r") as f:
          f.visititems(visitor)
      return alpha_tilt
  \<close>
  The visitor is run on every object in turn, with \<open>alpha_tilt\<close> as its state. The
  \<open>try\<close> block covers the body of the visitor only; the open of the container is outside.
\<close>

fun visitor :: "(rat \<Rightarrow> 'f) \<Rightarrow> 'f option \<Rightarrow> ustr \<times> h5obj \<Rightarrow> 'f option" where
  "visitor rnd (Some a) (nm, obj) = Some a"
| "visitor rnd None (nm, Group) = None"
| "visitor rnd None (nm, Dataset payload) =
     (if \<not> has_metadata nm then None
      else (case payload of
              None \<Rightarrow> None
            | Some text \<Rightarrow>
                (case re_search text of
                   None \<Rightarrow> None
                 | Some g \<Rightarrow> float_of_group rnd g)))"

definition extract_alpha_tilt_from_emd ::
    "('f, 'px, 'a) world_scheme \<Rightarrow> path \<Rightarrow> exn + 'f option" where
  "extract_alpha_tilt_from_emd w emd_path =
     (case h5_open w emd_path of
        None \<Rightarrow> Inl (H5OpenError emd_path)
      | Some f \<Rightarrow> Inr (foldl (visitor (to_float w)) None f))"

section \<open>Stack Assembler\<close>

text \<open>
  The effects of a run: the calls of the callbacks, in order, and the number of times the
  cancellation predicate has been polled. A callback is the function from its argument to
  the event it emits; \<open>None\<close> is a callback that was not given. The cancellation predicate
  is read by its poll count: \<open>c n\<close> is its answer at poll \<open>n\<close> of the run.
\<close>

record 'ev effects =
  trace :: "'ev list"
  polls :: nat

datatype log_msg =
    EmdNotFound ustr
  | AlphaNotFound ustr
  | Cancelled
  | ProcessingSource ustr nat
  | InvalidSource
  | Generated path

text \<open>
  The argument of \<open>progress_cb\<close>, kept by its operands, since the source computes it in
  floating point: \<open>Collected k n\<close> is \<open>int(k / max(n, 1) * 50)\<close> and \<open>Stacked k n\<close> is
  \<open>50 + int(k / max(n, 1) * 50)\<close>.
\<close>

datatype progress_val = Collected nat nat | Stacked nat nat

text \<open>How a loop ends: it runs to its end, the function returns \<open>None\<close>, or it raises.\<close>

datatype 'a flow = Completed 'a | ReturnedNone | Raised exn

text \<open>\<open>cancel_flag is not None and cancel_flag()\<close>.\<close>

definition poll :: "(nat \<Rightarrow> bool) option \<Rightarrow> 'ev effects \<Rightarrow> bool \<times> 'ev effects" where
  "poll cancel_flag s =
     (case cancel_flag of
        None \<Rightarrow> (False, s)
      | Some c \<Rightarrow> (c (polls s), s\<lparr>polls := Suc (polls s)\<rparr>))"

text \<open>\<open>if cb: cb(x)\<close>.\<close>

definition emit :: "('a \<Rightarrow> 'ev) option \<Rightarrow> 'a \<Rightarrow> 'ev effects \<Rightarrow> 'ev effects" where
  "emit cb x s =
     (case cb of
        None \<Rightarrow> s
      | Some f \<Rightarrow> s\<lparr>trace := trace s @ [f x]\<rparr>)"

text \<open>
  \<open>np.stack(stack, axis=0)\<close>: the arrays must be at least one and of one shape, or it
  raises \<open>ValueError\<close> (here \<open>None\<close>).
\<close>

definition np_stack :: "'px ndarray2 list \<Rightarrow> 'px ndarray2 list option" where
  "np_stack arrays =
     (case arrays of
        [] \<Rightarrow> None
      | a # as \<Rightarrow> if list_all (\<lambda>b. shape b = shape a) as then Some arrays else None)"

text \<open>
  \<^verbatim>\<open>
  def load_images_sorted_by_alpha(image_files, emd_dir, log_cb=None, progress_cb=None,
                                  cancel_flag=None):
      records = []
      total = len(image_files)
      for idx, img_path in enumerate(image_files):
          if cancel_flag is not None and cancel_flag():
              return None
          emd_path = find_matching_emd(img_path, emd_dir)
          if emd_path is None:
              if log_cb: log_cb(f"EMD not found for: {img_path.name}")
              continue
          alpha = extract_alpha_tilt_from_emd(emd_path)
          if alpha is None:
              if log_cb: log_cb(f"AlphaTilt not found for: {emd_path.name}")
              continue
          records.append((alpha, img_path))
          if progress_cb:
              progress_cb(int((idx + 1) / max(total, 1) * 50))
      if not records:
          return None
      records.sort(key=lambda x: x[0])
      stack = []
      for j, (alpha, img_path) in enumerate(records):
          if cancel_flag is not None and cancel_flag():
              return None
          img = Image.open(img_path).convert("F")
          stack.append(np.array(img))
          if progress_cb:
              progress_cb(50 + int((j + 1) / max(len(records), 1) * 50))
      return np.stack(stack, axis=0)
  \<close>
  The first loop is \<open>collect_tilts\<close>, the second \<open>stack_images\<close>; \<open>list.sort\<close> with a key
  is a stable sort, here \<open>sort_key\<close>.
\<close>

fun collect_tilts ::
    "('f, 'px, 'a) world_scheme \<Rightarrow> ustr \<Rightarrow> (log_msg \<Rightarrow> 'ev) option \<Rightarrow>
     (progress_val \<Rightarrow> 'ev) option \<Rightarrow> (nat \<Rightarrow> bool) option \<Rightarrow> nat \<Rightarrow> nat \<Rightarrow>
     path list \<Rightarrow> ('f \<times> path) list \<Rightarrow> 'ev effects \<Rightarrow> ('f \<times> path) list flow \<times> 'ev effects" where
  "collect_tilts w emd_dir log_cb progress_cb cancel_flag total_files idx [] records s =
     (Completed records, s)"
| "collect_tilts w emd_dir log_cb progress_cb cancel_flag total_files idx (img_path # rest) records s =
     (let (cancelled, s1) = poll cancel_flag s
      in if cancelled then (ReturnedNone, s1)
         else (case find_matching_emd w img_path emd_dir of
                 None \<Rightarrow>
                   collect_tilts w emd_dir log_cb progress_cb cancel_flag total_files (Suc idx) rest
                     records (emit log_cb (EmdNotFound (name img_path)) s1)
               | Some emd_path \<Rightarrow>
                   (case extract_alpha_tilt_from_emd w emd_path of
                      Inl e \<Rightarrow> (Raised e, s1)
                    | Inr None \<Rightarrow>
                        collect_tilts w emd_dir log_cb progress_cb cancel_flag total_files (Suc idx)
                          rest records (emit log_cb (AlphaNotFound (name emd_path)) s1)
                    | Inr (Some alpha) \<Rightarrow>
                        collect_tilts w emd_dir log_cb progress_cb cancel_flag total_files (Suc idx)
                          rest (records @ [(alpha, img_path)])
                          (emit progress_cb (Collected (Suc idx) total_files) s1))))"

fun stack_images ::
    "('f, 'px, 'a) world_scheme \<Rightarrow> (progress_val \<Rightarrow> 'ev) option \<Rightarrow> (nat \<Rightarrow> bool) option \<Rightarrow>
     nat \<Rightarrow> nat \<Rightarrow> ('f \<times> path) list \<Rightarrow> 'px ndarray2 list \<Rightarrow> 'ev effects \<Rightarrow>
     'px ndarray2 list flow \<times> 'ev effects" where
  "stack_images w progress_cb cancel_flag n j [] stack s = (Completed stack, s)"
| "stack_images w progress_cb cancel_flag n j ((alpha, img_path) # rest) stack s =
     (let (cancelled, s1) = poll cancel_flag s
      in if cancelled then (ReturnedNone, s1)
         else (case image_open w img_path of
                 None \<Rightarrow> (Raised (ImageDecodeError img_path), s1)
               | Some img \<Rightarrow>
                   stack_images w progress_cb cancel_flag n (Suc j) rest (stack @ [img])
                     (emit progress_cb (Stacked (Suc j) n) s1)))"

definition load_images_sorted_by_alpha ::
    "('f::linorder, 'px, 'a) world_scheme \<Rightarrow> path list \<Rightarrow> ustr \<Rightarrow> (log_msg \<Rightarrow> 'ev) option \<Rightarrow>
     (progress_val \<Rightarrow> 'ev) option \<Rightarrow> (nat \<Rightarrow> bool) option \<Rightarrow> 'ev effects \<Rightarrow>
     (exn + 'px ndarray2 list option) \<times> 'ev effects" where
  "load_images_sorted_by_alpha w image_files emd_dir log_cb progress_cb cancel_flag s =
     (case collect_tilts w emd_dir log_cb progress_cb cancel_flag (length image_files) 0
             image_files [] s of
        (ReturnedNone, s1) \<Rightarrow> (Inr None, s1)
      | (Raised e, s1) \<Rightarrow> (Inl e, s1)
      | (Completed records, s1) \<Rightarrow>
          if records = [] then (Inr None, s1)
          else (case stack_images w progress_cb cancel_flag (length records) 0
                       (sort_key fst records) [] s1 of
                  (ReturnedNone, s2) \<Rightarrow> (Inr None, s2)
                | (Raised e, s2) \<Rightarrow> (Inl e, s2)
                | (Completed stack, s2) \<Rightarrow>
                    (case np_stack stack of
                       None \<Rightarrow> (Inl StackShapeError, s2)
                     | Some volume \<Rightarrow> (Inr (Some volume), s2))))"

section \<open>The worker that drives the pipeline\<close>

text \<open>
  \<^verbatim>\<open>
  def run(self):
      try:
          total_sources = len(self.selected_sources)
          if total_sources == 0:
              self.error.emit("No data sources selected.")
              return
          for i, source in enumerate(self.selected_sources):
              if self.is_cancelled():
                  self.log.emit("Cancelled.")
                  break
              files = self.groups.get(source, [])
              self.log.emit(f"Processing data source: {source} ({len(files)} images)")
              def progress_cb(p): ...
              stack = core.load_images_sorted_by_alpha(files, self.emd_dir,
                  log_cb=lambda s: self.log.emit(s), progress_cb=progress_cb,
                  cancel_flag=self.is_cancelled)
              if stack is None:
                  self.log.emit("Invalid data source, skipping.")
                  continue
              out_name = source.replace(" ", "_")
              out_path = self.output_dir / f"{out_name}.mrc"
              core.write_mrc(stack, out_path)
              self.log.emit(f"Successfully generated: {out_path}")
          self.progress.emit(100)
          self.finished.emit()
      except Exception as e:
          self.error.emit(repr(e))
  \<close>
  The signals of the worker are its events; the files \<open>write_mrc\<close> has written are kept
  beside them, each with the volume written.
\<close>

datatype signal =
    Log log_msg
  | Progress nat nat progress_val
  | ProgressDone
  | Finished
  | ErrorNoSources
  | Error exn

type_synonym 'px written = "(path \<times> 'px ndarray2 list) list"

fun worker_loop ::
    "('f::linorder, 'px, 'a) world_scheme \<Rightarrow> (ustr \<rightharpoonup> path list) \<Rightarrow> ustr \<Rightarrow> ustr \<Rightarrow>
     (nat \<Rightarrow> bool) \<Rightarrow> nat \<Rightarrow> nat \<Rightarrow> ustr list \<Rightarrow> 'px written \<Rightarrow> signal effects \<Rightarrow>
     exn option \<times> 'px written \<times> signal effects" where
  "worker_loop w groups emd_dir output_dir is_cancelled total_sources i [] written s =
     (None, written, s)"
| "worker_loop w groups emd_dir output_dir is_cancelled total_sources i (source # rest) written s =
     (let (cancelled, s1) = poll (Some is_cancelled) s
      in if cancelled then (None, written, emit (Some Log) Cancelled s1)
         else let files = (case groups source of None \<Rightarrow> [] | Some fs \<Rightarrow> fs);
                  s2 = emit (Some Log) (ProcessingSource source (length files)) s1
              in (case load_images_sorted_by_alpha w files emd_dir (Some Log)
                         (Some (Progress i total_sources)) (Some is_cancelled) s2 of
                    (Inl e, s3) \<Rightarrow> (Some e, written, s3)
                  | (Inr None, s3) \<Rightarrow>
                      worker_loop w groups emd_dir output_dir is_cancelled total_sources (Suc i) rest
                        written (emit (Some Log) InvalidSource s3)
                  | (Inr (Some stack), s3) \<Rightarrow>
                      (let out_name = replace_space source;
                           out_path = Path output_dir (out_name @ ustr ''.mrc'')
                       in if \<not> mrc_writable w out_path
                          then (Some (MrcWriteError out_path), written, s3)
                          else worker_loop w groups emd_dir output_dir is_cancelled total_sources
                                 (Suc i) rest (written @ [(out_path, stack)])
                                 (emit (Some Log) (Generated out_path) s3))))"


section \<open>Notions of the specification\<close>

text \<open>
  The tilt record of an image, in the words of the specification: the image is matched
  when its companion container is located and an angle is extracted from it.
\<close>

definition tilt_record ::
    "('f, 'px, 'a) world_scheme \<Rightarrow> ustr \<Rightarrow> path \<Rightarrow> ('f \<times> path) option" where
  "tilt_record w emd_dir img =
     (case find_matching_emd w img emd_dir of
        None \<Rightarrow> None
      | Some emd \<Rightarrow>
          (case extract_alpha_tilt_from_emd w emd of
             Inr (Some alpha) \<Rightarrow> Some (alpha, img)
           | _ \<Rightarrow> None))"

definition matched_images ::
    "('f, 'px, 'a) world_scheme \<Rightarrow> ustr \<Rightarrow> path list \<Rightarrow> ('f \<times> path) list" where
  "matched_images w emd_dir image_files = List.map_filter (tilt_record w emd_dir) image_files"

text \<open>
  The container the Locator looks for: the tokens of the stem without the last one,
  rejoined with single spaces, with the container extension, under the metadata directory.
\<close>

definition expected_container :: "ustr \<Rightarrow> path \<Rightarrow> path" where
  "expected_container emd_dir img =
     Path emd_dir (py_join [32] (butlast (py_split (name_stem (name img)))) @ ustr ''.emd'')"


text \<open>A cancellation predicate that is never true (or is not given).\<close>

definition never_cancelled :: "(nat \<Rightarrow> bool) option \<Rightarrow> bool" where
  "never_cancelled cancel_flag = (case cancel_flag of None \<Rightarrow> True | Some c \<Rightarrow> \<forall>n. \<not> c n)"

section \<open>A sample run\<close>

text \<open>
  A directory of images of the sources \<open>Foo\<close>, \<open>Bar\<close> and \<open>Baz\<close>, and a directory of
  containers. The container of \<open>u Foo.png\<close> writes its angle with U+2212; \<open>t5 Foo.png\<close>
  has no container; \<open>x.emd\<close> exists but is not a container; \<open>b1 Baz.jpg\<close> does not decode;
  files \<open>.emd\<close> and \<open>s 01.emd\<close> exist too.
\<close>

definition unicode_minus_text :: ustr where
  "unicode_minus_text = ustr ''\"AlphaTilt\": \"'' @ [8722] @ ustr ''12.5\"''"

definition sample_container :: "ustr \<Rightarrow> h5file" where
  "sample_container text =
     [(ustr ''Data'', Group), (ustr ''Data/Metadata'', Dataset (Some text))]"

definition sample_entries :: "ustr list" where
  "sample_entries =
     [ustr ''t1 Foo.png'', ustr ''t2 Foo.png'', ustr ''t3 Foo.png'', ustr ''t4 Foo.png'',
      ustr ''t5 Foo.png'', ustr ''u Foo.png'', ustr ''x Bar.tif'', ustr ''b1 Baz.jpg'',
      ustr ''notes.txt'']"

definition sample :: "(rat, nat) world" where
  "sample =
     \<lparr>dir_entries = (\<lambda>d.
          if d = ustr ''imgs''
          then Some sample_entries
          else None),
      path_exists = (\<lambda>p. parent p = ustr ''emd'' \<and>
          name p \<in> set [ustr ''t1.emd'', ustr ''t2.emd'', ustr ''t3.emd'', ustr ''t4.emd'',
                         ustr ''u.emd'', ustr ''x.emd'', ustr ''b1.emd'', ustr ''.emd'',
                         ustr ''s 01.emd'']),
      h5_open = (\<lambda>p.
          if name p = ustr ''t1.emd'' then Some (sample_container (ustr ''\"AlphaTilt\":\"12.5\"''))
          else if name p = ustr ''t2.emd''
            then Some (sample_container (ustr ''\"alphaTilt\": \"-12.5\"''))
          else if name p = ustr ''t3.emd'' then Some (sample_container (ustr ''\"alphatilt\": 0''))
          else if name p = ustr ''t4.emd''
            then Some (sample_container (ustr ''\"ALPHATILT\" : \"0.0\"''))
          else if name p = ustr ''u.emd''
            then Some (sample_container unicode_minus_text)
          else if name p = ustr ''b1.emd'' then Some (sample_container (ustr ''\"alphaTilt\": 3''))
          else None),
      image_open = (\<lambda>p.
          if name p = ustr ''t1 Foo.png'' then Some (Array2 (1, 1) [1])
          else if name p = ustr ''t2 Foo.png'' then Some (Array2 (1, 1) [2])
          else if name p = ustr ''t3 Foo.png'' then Some (Array2 (1, 1) [3])
          else if name p = ustr ''t4 Foo.png'' then Some (Array2 (1, 1) [4])
          else None),
      mrc_writable = (\<lambda>p. True),
      to_float = (\<lambda>q. q)\<rparr>"

definition sample_image :: "string \<Rightarrow> path" where
  "sample_image n = Path (ustr ''imgs'') (ustr n)"

definition sample_emd :: "string \<Rightarrow> path" where
  "sample_emd n = Path (ustr ''emd'') (ustr n)"

definition foo_files :: "path list" where
  "foo_files =
     [sample_image ''t1 Foo.png'', sample_image ''t2 Foo.png'', sample_image ''t3 Foo.png'',
      sample_image ''t4 Foo.png'', sample_image ''t5 Foo.png'', sample_image ''u Foo.png'']"

definition start :: "'ev effects" where
  "start = \<lparr>trace = [], polls = 0\<rparr>"

section \<open>Properties of the string functions\<close>

lemma split_ws_tokens:
  "\<forall>c \<in> set cur. \<not> py_isspace c \<Longrightarrow> t \<in> set (split_ws cur s) \<Longrightarrow>
   t \<noteq> [] \<and> (\<forall>c \<in> set t. \<not> py_isspace c)"
proof (induction s arbitrary: cur)
  case Nil
  then show ?case by (auto split: if_splits)
next
  case (Cons c cs)
  show ?case
  proof (cases "py_isspace c")
    case True
    with Cons.prems have "t = cur \<and> cur \<noteq> [] \<or> t \<in> set (split_ws [] cs)"
      by (auto split: if_splits)
    then show ?thesis
      using Cons.prems(1) Cons.IH [of "[]"] by auto
  next
    case False
    with Cons.prems have "t \<in> set (split_ws (cur @ [c]) cs)" by simp
    moreover have "\<forall>d \<in> set (cur @ [c]). \<not> py_isspace d"
      using Cons.prems(1) False by auto
    ultimately show ?thesis using Cons.IH by blast
  qed
qed

lemma py_split_tokens:
  "t \<in> set (py_split s) \<Longrightarrow> t \<noteq> [] \<and> (\<forall>c \<in> set t. \<not> py_isspace c)"
  unfolding py_split_def using split_ws_tokens [of "[]" t s] by simp

lemma replace_space_id: "32 \<notin> set s \<Longrightarrow> replace_space s = s"
  unfolding replace_space_def by (induction s) auto

lemma extract_source_no_space:
  "c \<in> set (extract_source_from_filename f) \<Longrightarrow> \<not> py_isspace c"
proof -
  assume a: "c \<in> set (extract_source_from_filename f)"
  define tokens where "tokens = py_split (name_stem (path_name f))"
  from a have ne: "tokens \<noteq> []" and c: "c \<in> set (last tokens)"
    by (auto simp: extract_source_from_filename_def Let_def tokens_def split: if_splits)
  from ne have "last tokens \<in> set tokens" by simp
  then show ?thesis using py_split_tokens c unfolding tokens_def by blast
qed

section \<open>Properties of the grouper\<close>

lemma add_image_apply:
  "add_image g p k =
     (if k = extract_source_from_filename (name p)
      then Some ((case g k of None \<Rightarrow> [] | Some l \<Rightarrow> l) @ [p]) else g k)"
  by (simp add: add_image_def Let_def)

lemma fold_add_image:
  "foldl add_image g imgs k =
     (let new = filter (\<lambda>p. extract_source_from_filename (name p) = k) imgs
      in if new = [] then g k else Some ((case g k of None \<Rightarrow> [] | Some l \<Rightarrow> l) @ new))"
proof (induction imgs arbitrary: g)
  case Nil
  then show ?case by simp
next
  case (Cons p ps)
  have "foldl add_image g (p # ps) k = foldl add_image (add_image g p) ps k" by simp
  also note Cons.IH [of "add_image g p"]
  finally have step: "foldl add_image g (p # ps) k =
     (let new = filter (\<lambda>p. extract_source_from_filename (name p) = k) ps
      in if new = [] then add_image g p k
         else Some ((case add_image g p k of None \<Rightarrow> [] | Some l \<Rightarrow> l) @ new))" .
  show ?case unfolding step
    by (auto simp: add_image_apply Let_def)
qed













lemma group_lookup:
  "group_images_by_source w d k =
     (let g = filter (\<lambda>p. extract_source_from_filename (name p) = k) (scan_images w d)
      in if g = [] then None else Some g)"
  unfolding group_images_by_source_def fold_add_image by (simp add: Let_def)

section \<open>Properties of the assembler\<close>

lemma matched_images_Cons:
  "matched_images w emd_dir (img # rest) =
     (case tilt_record w emd_dir img of
        None \<Rightarrow> matched_images w emd_dir rest
      | Some r \<Rightarrow> r # matched_images w emd_dir rest)"
  by (simp add: matched_images_def map_filter_simps split: option.splits)

lemma matched_images_Nil: "matched_images w emd_dir [] = []"
  by (simp add: matched_images_def map_filter_simps)

lemma collect_tilts_completed:
  "collect_tilts w emd_dir log_cb progress_cb cancel_flag total_files idx image_files records s
     = (Completed rs, s') \<Longrightarrow>
   rs = records @ matched_images w emd_dir image_files"
proof (induction image_files arbitrary: idx records s)
  case Nil
  then show ?case by (simp add: matched_images_Nil)
next
  case (Cons img rest)
  show ?case
  proof (cases "tilt_record w emd_dir img")
    case None
    with Cons.prems obtain s1 where
      "collect_tilts w emd_dir log_cb progress_cb cancel_flag total_files (Suc idx) rest
          records s1 = (Completed rs, s')"
      by (auto simp: tilt_record_def Let_def split: prod.splits if_splits option.splits sum.splits)
    from Cons.IH [OF this] show ?thesis by (simp add: matched_images_Cons None)
  next
    case (Some r)
    then have r: "r = (fst r, img)"
      by (auto simp: tilt_record_def split: option.splits sum.splits)
    with Some Cons.prems obtain s1 where
      "collect_tilts w emd_dir log_cb progress_cb cancel_flag total_files (Suc idx) rest
          (records @ [r]) s1 = (Completed rs, s')"
      by (auto simp: tilt_record_def Let_def split: prod.splits if_splits option.splits sum.splits)
    from Cons.IH [OF this] show ?thesis by (simp add: matched_images_Cons Some)
  qed
qed

lemma stack_images_completed:
  "stack_images w progress_cb cancel_flag n j recs stack s = (Completed st, s') \<Longrightarrow>
   map Some st = map Some stack @ map (\<lambda>r. image_open w (snd r)) recs"
proof (induction recs arbitrary: j stack s)
  case Nil
  then show ?case by simp
next
  case (Cons r rest)
  obtain alpha img where r: "r = (alpha, img)" by (cases r)
  from Cons.prems obtain a s1 where a: "image_open w img = Some a"
    and "stack_images w progress_cb cancel_flag n (Suc j) rest (stack @ [a]) s1 = (Completed st, s')"
    unfolding r
    by (auto simp: Let_def split: prod.splits if_splits option.splits)
  from Cons.IH [OF this(2)] a show ?case unfolding r by simp
qed

lemma np_stack_Some: "np_stack arrays = Some v \<Longrightarrow> v = arrays"
  by (auto simp: np_stack_def split: list.splits if_splits)

lemma load_volume:
  assumes "fst (load_images_sorted_by_alpha w image_files emd_dir log_cb progress_cb cancel_flag s)
      = Inr (Some volume)"
  shows "map Some volume =
      map (\<lambda>r. image_open w (snd r)) (sort_key fst (matched_images w emd_dir image_files))"
proof -
  obtain f1 s1 where c: "collect_tilts w emd_dir log_cb progress_cb cancel_flag
      (length image_files) 0 image_files [] s = (f1, s1)" by force
  with assms obtain records where f1: "f1 = Completed records" and ne: "records \<noteq> []"
    by (cases f1) (auto simp: load_images_sorted_by_alpha_def split: if_splits)
  from c f1 have recs: "records = matched_images w emd_dir image_files"
    using collect_tilts_completed by fastforce
  obtain f2 s2 where st: "stack_images w progress_cb cancel_flag (length records) 0
      (sort_key fst records) [] s1 = (f2, s2)" by force
  with assms c f1 ne obtain stack where f2: "f2 = Completed stack" and "np_stack stack = Some volume"
    by (cases f2) (auto simp: load_images_sorted_by_alpha_def split: if_splits option.splits)
  then have "volume = stack" using np_stack_Some by fastforce
  moreover from st f2 have "map Some stack = map (\<lambda>r. image_open w (snd r)) (sort_key fst records)"
    using stack_images_completed by fastforce
  ultimately show ?thesis using recs by simp
qed

lemma visitor_Some: "foldl (visitor rnd) (Some a) f = Some a"
  by (induction f) auto

lemma visit_all_found:
  "foldl (visitor rnd) None f = Some a \<Longrightarrow>
   \<exists>nm text g. (nm, Dataset (Some text)) \<in> set f \<and> has_metadata nm \<and>
      re_search text = Some g \<and> float_of_group rnd g = Some a"
proof (induction f)
  case Nil
  then show ?case by simp
next
  case (Cons x f)
  obtain nm obj where x: "x = (nm, obj)" by (cases x)
  show ?case
  proof (cases "visitor rnd None x")
    case None
    with Cons show ?thesis by auto
  next
    case (Some b)
    with Cons.prems have "b = a" by (simp add: visitor_Some)
    with Some x have "\<exists>text g. obj = Dataset (Some text) \<and> has_metadata nm \<and>
        re_search text = Some g \<and> float_of_group rnd g = Some a"
      by (cases obj) (auto split: if_splits option.splits)
    with x show ?thesis by auto
  qed
qed

section \<open>Runs that are never cancelled\<close>

lemma poll_never: "never_cancelled cancel_flag \<Longrightarrow> fst (poll cancel_flag s) = False"
  by (auto simp: never_cancelled_def poll_def split: option.splits)

lemma collect_tilts_never:
  assumes "never_cancelled cancel_flag"
  shows "collect_tilts w emd_dir log_cb progress_cb cancel_flag total_files idx (img # rest) records s =
     (case find_matching_emd w img emd_dir of
        None \<Rightarrow>
          collect_tilts w emd_dir log_cb progress_cb cancel_flag total_files (Suc idx) rest records
            (emit log_cb (EmdNotFound (name img)) (snd (poll cancel_flag s)))
      | Some emd \<Rightarrow>
          (case extract_alpha_tilt_from_emd w emd of
             Inl e \<Rightarrow> (Raised e, snd (poll cancel_flag s))
           | Inr None \<Rightarrow>
               collect_tilts w emd_dir log_cb progress_cb cancel_flag total_files (Suc idx) rest
                 records (emit log_cb (AlphaNotFound (name emd)) (snd (poll cancel_flag s)))
           | Inr (Some alpha) \<Rightarrow>
               collect_tilts w emd_dir log_cb progress_cb cancel_flag total_files (Suc idx) rest
                 (records @ [(alpha, img)])
                 (emit progress_cb (Collected (Suc idx) total_files) (snd (poll cancel_flag s)))))"
proof -
  obtain b s1 where p: "poll cancel_flag s = (b, s1)" by force
  with poll_never [OF assms, of s] have b: "b = False" by simp
  have s1: "snd (poll cancel_flag s) = s1" using p by simp
  show ?thesis unfolding s1 by (simp add: p b)
qed

lemma stack_images_never:
  assumes "never_cancelled cancel_flag"
  shows "stack_images w progress_cb cancel_flag n j ((alpha, img) # rest) stack s =
     (case image_open w img of
        None \<Rightarrow> (Raised (ImageDecodeError img), snd (poll cancel_flag s))
      | Some a \<Rightarrow>
          stack_images w progress_cb cancel_flag n (Suc j) rest (stack @ [a])
            (emit progress_cb (Stacked (Suc j) n) (snd (poll cancel_flag s))))"
proof -
  obtain b s1 where p: "poll cancel_flag s = (b, s1)" by force
  with poll_never [OF assms, of s] have b: "b = False" by simp
  have s1: "snd (poll cancel_flag s) = s1" using p by simp
  show ?thesis unfolding s1 by (simp add: p b)
qed

lemma collect_tilts_independent:
  assumes "never_cancelled c1" and "never_cancelled c2"
  shows "fst (collect_tilts w emd_dir l1 p1 c1 t1 i1 image_files records s1) =
         fst (collect_tilts w emd_dir l2 p2 c2 t2 i2 image_files records s2)"
proof (induction image_files arbitrary: i1 i2 records s1 s2)
  case Nil
  show ?case by simp
next
  case (Cons img rest)
  show ?case
    unfolding collect_tilts_never [OF assms(1)] collect_tilts_never [OF assms(2)]
    by (auto split: option.splits sum.splits intro: Cons.IH)
qed

lemma stack_images_independent:
  assumes "never_cancelled c1" and "never_cancelled c2"
  shows "fst (stack_images w p1 c1 n1 j1 recs stack s1) =
         fst (stack_images w p2 c2 n2 j2 recs stack s2)"
proof (induction recs arbitrary: j1 j2 stack s1 s2)
  case Nil
  show ?case by simp
next
  case (Cons r rest)
  obtain alpha img where r: "r = (alpha, img)" by (cases r)
  show ?case
    unfolding r stack_images_never [OF assms(1)] stack_images_never [OF assms(2)]
    by (auto split: option.splits intro: Cons.IH)
qed

lemma fst_load:
  "fst (load_images_sorted_by_alpha w image_files emd_dir log_cb progress_cb cancel_flag s) =
     (case fst (collect_tilts w emd_dir log_cb progress_cb cancel_flag (length image_files) 0
                  image_files [] s) of
        ReturnedNone \<Rightarrow> Inr None
      | Raised e \<Rightarrow> Inl e
      | Completed records \<Rightarrow>
          if records = [] then Inr None
          else (case fst (stack_images w progress_cb cancel_flag (length records) 0
                            (sort_key fst records) []
                            (snd (collect_tilts w emd_dir log_cb progress_cb cancel_flag
                                    (length image_files) 0 image_files [] s))) of
                  ReturnedNone \<Rightarrow> Inr None
                | Raised e \<Rightarrow> Inl e
                | Completed stack \<Rightarrow>
                    (case np_stack stack of
                       None \<Rightarrow> Inl StackShapeError
                     | Some volume \<Rightarrow> Inr (Some volume))))"
  by (auto simp: load_images_sorted_by_alpha_def split: prod.splits flow.splits option.splits)

lemma load_independent:
  assumes "never_cancelled c1" and "never_cancelled c2"
  shows "fst (load_images_sorted_by_alpha w image_files emd_dir l1 p1 c1 s1) =
         fst (load_images_sorted_by_alpha w image_files emd_dir l2 p2 c2 s2)"
proof -
  have e: "fst (collect_tilts w emd_dir l1 p1 c1 (length image_files) 0 image_files [] s1) =
           fst (collect_tilts w emd_dir l2 p2 c2 (length image_files) 0 image_files [] s2)"
    using assms by (rule collect_tilts_independent)
  show ?thesis
  proof (cases "fst (collect_tilts w emd_dir l2 p2 c2 (length image_files) 0 image_files [] s2)")
    case (Completed records)
    have "fst (stack_images w p1 c1 (length records) 0 (sort_key fst records) []
             (snd (collect_tilts w emd_dir l1 p1 c1 (length image_files) 0 image_files [] s1))) =
          fst (stack_images w p2 c2 (length records) 0 (sort_key fst records) []
             (snd (collect_tilts w emd_dir l2 p2 c2 (length image_files) 0 image_files [] s2)))"
      using assms by (rule stack_images_independent)
    then show ?thesis unfolding fst_load e Completed by simp
  next
    case ReturnedNone
    then show ?thesis unfolding fst_load e by simp
  next
    case (Raised x)
    then show ?thesis unfolding fst_load e by simp
  qed
qed

section \<open>Failures and skipped images\<close>








section \<open>The signals of the worker\<close>


lemma poll_Some: "poll (Some c) s = (c (polls s), s\<lparr>polls := Suc (polls s)\<rparr>)"
  by (simp add: poll_def)

lemma emit_polls: "polls (emit cb x s) = polls s"
  by (simp add: emit_def split: option.splits)






lemma worker_loop_none:
  assumes "\<not> c (polls s)" and "(case groups source of None \<Rightarrow> [] | Some fs \<Rightarrow> fs) = image_files"
    and "load_images_sorted_by_alpha w image_files emd_dir (Some Log)
           (Some (Progress i total_sources)) (Some c)
           (emit (Some Log) (ProcessingSource source (length image_files))
              (s\<lparr>polls := Suc (polls s)\<rparr>)) = (Inr None, s3)"
  shows "worker_loop w groups emd_dir output_dir c total_sources i (source # rest) written s =
    worker_loop w groups emd_dir output_dir c total_sources (Suc i) rest written
      (emit (Some Log) InvalidSource s3)"
  using assms by (simp add: poll_Some Let_def)

lemma worker_loop_cancelled:
  "c (polls s) \<Longrightarrow> \<exists>s'. worker_loop w groups emd_dir output_dir c total_sources i sources written s
      = (None, written, s')"
  by (cases sources) (simp_all add: poll_Some)

section \<open>Polls and cancellation\<close>

lemma collect_tilts_cancelled:
  "c (polls s) \<Longrightarrow>
   collect_tilts w emd_dir log_cb progress_cb (Some c) total_files idx (img # rest) records s =
     (ReturnedNone, s\<lparr>polls := Suc (polls s)\<rparr>)"
  by (simp add: poll_Some)

lemma stack_images_cancelled:
  "c (polls s) \<Longrightarrow>
   stack_images w progress_cb (Some c) n j ((alpha, img) # rest) stack s =
     (ReturnedNone, s\<lparr>polls := Suc (polls s)\<rparr>)"
  by (simp add: poll_Some)

lemma collect_tilts_polls:
  "collect_tilts w emd_dir log_cb progress_cb (Some c) total_files idx image_files records s = (f, s') \<Longrightarrow>
   f \<noteq> ReturnedNone \<Longrightarrow> polls s \<le> k \<Longrightarrow> k < polls s' \<Longrightarrow> \<not> c k"
proof (induction image_files arbitrary: idx records s)
  case Nil
  then show ?case by simp
next
  case (Cons img rest)
  from Cons.prems(1,2) have nc: "\<not> c (polls s)"
    by (auto simp: poll_Some split: if_splits)
  show ?case
  proof (cases "k = polls s")
    case True
    with nc show ?thesis by simp
  next
    case False
    with Cons.prems(3) have k: "Suc (polls s) \<le> k" by simp
    from Cons.prems(1) nc have
      "(\<exists>e. f = Raised e \<and> s' = s\<lparr>polls := Suc (polls s)\<rparr>) \<or>
       (\<exists>i recs s1. polls s1 = Suc (polls s) \<and>
          collect_tilts w emd_dir log_cb progress_cb (Some c) total_files i rest recs s1 = (f, s'))"
      by (auto simp: poll_Some emit_polls split: option.splits sum.splits)
    then show ?thesis
    proof
      assume "\<exists>e. f = Raised e \<and> s' = s\<lparr>polls := Suc (polls s)\<rparr>"
      with Cons.prems(4) k show ?thesis by auto
    next
      assume "\<exists>i recs s1. polls s1 = Suc (polls s) \<and>
          collect_tilts w emd_dir log_cb progress_cb (Some c) total_files i rest recs s1 = (f, s')"
      then obtain i recs s1 where "polls s1 = Suc (polls s)"
        and "collect_tilts w emd_dir log_cb progress_cb (Some c) total_files i rest recs s1 = (f, s')"
        by blast
      with Cons.IH [OF this(2) Cons.prems(2) _ Cons.prems(4)] k show ?thesis by simp
    qed
  qed
qed

lemma stack_images_polls:
  "stack_images w progress_cb (Some c) n j recs stack s = (f, s') \<Longrightarrow>
   f \<noteq> ReturnedNone \<Longrightarrow> polls s \<le> k \<Longrightarrow> k < polls s' \<Longrightarrow> \<not> c k"
proof (induction recs arbitrary: j stack s)
  case Nil
  then show ?case by simp
next
  case (Cons r rest)
  obtain alpha img where r: "r = (alpha, img)" by (cases r)
  from Cons.prems(1,2) have nc: "\<not> c (polls s)"
    unfolding r by (auto simp: poll_Some split: if_splits)
  show ?case
  proof (cases "k = polls s")
    case True
    with nc show ?thesis by simp
  next
    case False
    with Cons.prems(3) have k: "Suc (polls s) \<le> k" by simp
    from Cons.prems(1) nc have
      "(\<exists>e. f = Raised e \<and> s' = s\<lparr>polls := Suc (polls s)\<rparr>) \<or>
       (\<exists>i st s1. polls s1 = Suc (polls s) \<and>
          stack_images w progress_cb (Some c) n i rest st s1 = (f, s'))"
      unfolding r by (auto simp: poll_Some emit_polls split: option.splits)
    then show ?thesis
    proof
      assume "\<exists>e. f = Raised e \<and> s' = s\<lparr>polls := Suc (polls s)\<rparr>"
      with Cons.prems(4) k show ?thesis by auto
    next
      assume "\<exists>i st s1. polls s1 = Suc (polls s) \<and>
          stack_images w progress_cb (Some c) n i rest st s1 = (f, s')"
      then obtain i st s1 where "polls s1 = Suc (polls s)"
        and "stack_images w progress_cb (Some c) n i rest st s1 = (f, s')"
        by blast
      with Cons.IH [OF this(2) Cons.prems(2) _ Cons.prems(4)] k show ?thesis by simp
    qed
  qed
qed

lemma load_polls:
  assumes "load_images_sorted_by_alpha w image_files emd_dir log_cb progress_cb (Some c) s = (r, s')"
    and "polls s \<le> k" and "k < polls s'" and "c k"
  shows "r = Inr None"
proof (rule ccontr)
  assume nr: "r \<noteq> Inr None"
  obtain f1 s1 where c1: "collect_tilts w emd_dir log_cb progress_cb (Some c) (length image_files) 0
      image_files [] s = (f1, s1)" by force
  show False
  proof (cases f1)
    case ReturnedNone
    with assms(1) c1 nr show False by (simp add: load_images_sorted_by_alpha_def)
  next
    case (Raised e)
    with assms(1) c1 have "s' = s1" by (simp add: load_images_sorted_by_alpha_def)
    with collect_tilts_polls [OF c1 _ assms(2)] Raised assms(3,4) show False by simp
  next
    case (Completed records)
    obtain f2 s2 where c2: "stack_images w progress_cb (Some c) (length records) 0
        (sort_key fst records) [] s1 = (f2, s2)" by force
    from assms(1) c1 Completed nr have ne: "records \<noteq> []"
      by (auto simp: load_images_sorted_by_alpha_def)
    with assms(1) c1 c2 Completed nr have f2: "f2 \<noteq> ReturnedNone" and s': "s' = s2"
      by (auto simp: load_images_sorted_by_alpha_def split: flow.splits option.splits)
    show False
    proof (cases "k < polls s1")
      case True
      with collect_tilts_polls [OF c1 _ assms(2)] Completed assms(4) show False by simp
    next
      case False
      then have "polls s1 \<le> k" by simp
      with stack_images_polls [OF c2 f2] assms(3,4) s' show False by simp
    qed
  qed
qed

lemma load_cancelled_first:
  "c (polls s) \<Longrightarrow> image_files \<noteq> [] \<Longrightarrow>
   load_images_sorted_by_alpha w image_files emd_dir log_cb progress_cb (Some c) s =
     (Inr None, s\<lparr>polls := Suc (polls s)\<rparr>)"
  by (cases image_files) (simp_all add: load_images_sorted_by_alpha_def poll_Some)

lemma worker_loop_cancel_no_write:
  assumes "\<forall>a b. c a \<and> a \<le> b \<longrightarrow> c b"
    and "\<not> c (polls s)"
    and "(case groups source of None \<Rightarrow> [] | Some fs \<Rightarrow> fs) = image_files"
    and "Suc (polls s) \<le> k"
    and "k < polls (snd (load_images_sorted_by_alpha w image_files emd_dir (Some Log)
           (Some (Progress i total_sources)) (Some c)
           (emit (Some Log) (ProcessingSource source (length image_files))
              (s\<lparr>polls := Suc (polls s)\<rparr>))))"
    and "c k"
  shows "\<exists>s'. worker_loop w groups emd_dir output_dir c total_sources i (source # rest) written s
      = (None, written, s')"
proof -
  let ?s2 = "emit (Some Log) (ProcessingSource source (length image_files))
              (s\<lparr>polls := Suc (polls s)\<rparr>)"
  obtain r s3 where l: "load_images_sorted_by_alpha w image_files emd_dir (Some Log)
           (Some (Progress i total_sources)) (Some c) ?s2 = (r, s3)" by force
  have p2: "polls ?s2 = Suc (polls s)" by (simp add: emit_polls)
  from assms(5) l have k3: "k < polls s3" by simp
  from load_polls [OF l _ k3 assms(6)] p2 assms(4) have "r = Inr None" by simp
  with l have step: "worker_loop w groups emd_dir output_dir c total_sources i (source # rest) written s =
    worker_loop w groups emd_dir output_dir c total_sources (Suc i) rest written
      (emit (Some Log) InvalidSource s3)"
    using worker_loop_none [where c = c and s = s and groups = groups and source = source,
        OF assms(2,3)] by simp
  from k3 have "k \<le> polls s3" by simp
  with assms(1,6) have "c (polls s3)" by blast
  then have "c (polls (emit (Some Log) InvalidSource s3))" by (simp add: emit_polls)
  from worker_loop_cancelled [where c = c and s = "emit (Some Log) InvalidSource s3", OF this]
  show ?thesis unfolding step by blast
qed


section \<open>Splitting what was joined\<close>

lemma split_ws_token:
  "\<forall>c \<in> set t. \<not> py_isspace c \<Longrightarrow> split_ws cur (t @ s) = split_ws (cur @ t) s"
  by (induction t arbitrary: cur) auto

lemma py_isspace_32: "py_isspace 32"
  by (simp add: py_isspace_def)

lemma split_join:
  "\<forall>t \<in> set ts. t \<noteq> [] \<and> (\<forall>c \<in> set t. \<not> py_isspace c) \<Longrightarrow> py_split (py_join [32] ts) = ts"
proof (induction ts)
  case Nil
  show ?case by (simp add: py_split_def)
next
  case (Cons t ts)
  have t: "t \<noteq> []" "\<forall>c \<in> set t. \<not> py_isspace c" using Cons.prems by auto
  show ?case
  proof (cases ts)
    case Nil
    have "split_ws [] (t @ []) = split_ws ([] @ t) []" using t(2) by (rule split_ws_token)
    with t(1) Nil show ?thesis by (simp add: py_split_def)
  next
    case (Cons u us)
    have ih: "split_ws [] (py_join [32] (u # us)) = u # us"
      using Cons.IH Cons.prems Cons by (simp add: py_split_def)
    have "split_ws [] (t @ 32 # py_join [32] (u # us)) = split_ws ([] @ t) (32 # py_join [32] (u # us))"
      using t(2) by (rule split_ws_token)
    with t(1) ih Cons show ?thesis by (simp add: py_split_def py_isspace_32)
  qed
qed

lemma length_join:
  "ts \<noteq> [] \<Longrightarrow> length (py_join [32] ts) = sum_list (map length ts) + (length ts - 1)"
proof (induction ts)
  case Nil
  then show ?case by simp
next
  case (Cons t ts)
  then show ?case by (cases ts) auto
qed

lemma join_spaces:
  "\<forall>t \<in> set ts. \<forall>c \<in> set t. \<not> py_isspace c \<Longrightarrow> c \<in> set (py_join [32] ts) \<Longrightarrow>
   py_isspace c \<Longrightarrow> c = 32"
proof (induction ts)
  case Nil
  then show ?case by simp
next
  case (Cons t ts)
  then show ?case by (cases ts) auto
qed

lemma butlast_tokens:
  "t \<in> set (butlast (py_split s)) \<Longrightarrow> t \<noteq> [] \<and> (\<forall>c \<in> set t. \<not> py_isspace c)"
  using py_split_tokens in_set_butlastD by metis

section \<open>The suffix of an enumerated entry\<close>






section \<open>Containers that cannot be opened\<close>



section \<open>The sample run, evaluated\<close>

lemma py_decimal_ascii:
  "c < 1632 \<Longrightarrow> py_decimal c = (if 48 \<le> c \<and> c < 58 then Some (c - 48) else None)"
  by (simp add: py_decimal_def decimal_zeros_def)

lemma py_isdecimal_ascii: "c < 1632 \<Longrightarrow> py_isdecimal c \<longleftrightarrow> 48 \<le> c \<and> c < 58"
  by (simp add: py_isdecimal_def py_decimal_ascii)

lemma py_isdecimal_minus: "\<not> py_isdecimal 8722"
  by (simp add: py_isdecimal_def py_decimal_def decimal_zeros_def)

lemmas regex_eval = ustr_def match_at_def match_number_def optional_char_def
  ignorecase_match_def py_isspace_def py_isdecimal_ascii py_isdecimal_minus

lemmas float_eval = ustr_def float_of_group_def optional_char_def digits_value_def
  py_isdecimal_ascii py_isdecimal_minus py_decimal_ascii

lemma search_quoted_negative: "re_search (ustr ''\"alphaTilt\": \"-12.5\"'') = Some (ustr ''-12.5'')"
  by (simp add: regex_eval)

lemma search_quoted_positive: "re_search (ustr ''\"AlphaTilt\":\"12.5\"'') = Some (ustr ''12.5'')"
  by (simp add: regex_eval)

lemma search_bare_zero: "re_search (ustr ''\"alphatilt\": 0'') = Some (ustr ''0'')"
  by (simp add: regex_eval)

lemma search_upper_zero: "re_search (ustr ''\"ALPHATILT\" : \"0.0\"'') = Some (ustr ''0.0'')"
  by (simp add: regex_eval)

lemma search_bare_three: "re_search (ustr ''\"alphaTilt\": 3'') = Some (ustr ''3'')"
  by (simp add: regex_eval)

lemma search_unicode_minus:
  "re_search unicode_minus_text = Some (8722 # ustr ''12.5'')"
  by (simp add: unicode_minus_text_def regex_eval)

lemma float_negative: "float_of_group rnd (ustr ''-12.5'') = Some (rnd (- (25 / 2)))"
  by (simp add: float_eval)

lemma float_positive: "float_of_group rnd (ustr ''12.5'') = Some (rnd (25 / 2))"
  by (simp add: float_eval)

lemma float_zero: "float_of_group rnd (ustr ''0'') = Some (rnd 0)"
  by (simp add: float_eval)

lemma float_zero_dot: "float_of_group rnd (ustr ''0.0'') = Some (rnd 0)"
  by (simp add: float_eval)

lemma float_three: "float_of_group rnd (ustr ''3'') = Some (rnd 3)"
  by (simp add: float_eval)

lemma float_unicode_minus: "float_of_group rnd (8722 # ustr ''12.5'') = None"
  by (simp add: float_eval)

lemma has_metadata_sample:
  "\<not> has_metadata (ustr ''Data'')" "has_metadata (ustr ''Data/Metadata'')"
  by (simp_all add: has_metadata_def ustr_def lower_char_def sublist_code)

lemma visit_sample_container:
  "foldl (visitor rnd) None (sample_container text) =
     (case re_search text of None \<Rightarrow> None | Some g \<Rightarrow> float_of_group rnd g)"
  by (simp add: sample_container_def has_metadata_sample split: option.splits)


lemmas path_eval = find_matching_emd_def name_stem_def py_split_def py_isspace_def
  sample_image_def sample_emd_def ustr_def sample_def Let_def

lemma sample_find:
  "find_matching_emd sample (sample_image ''t1 Foo.png'') (ustr ''emd'') = Some (sample_emd ''t1.emd'')"
  "find_matching_emd sample (sample_image ''t2 Foo.png'') (ustr ''emd'') = Some (sample_emd ''t2.emd'')"
  "find_matching_emd sample (sample_image ''t3 Foo.png'') (ustr ''emd'') = Some (sample_emd ''t3.emd'')"
  "find_matching_emd sample (sample_image ''t4 Foo.png'') (ustr ''emd'') = Some (sample_emd ''t4.emd'')"
  "find_matching_emd sample (sample_image ''t5 Foo.png'') (ustr ''emd'') = None"
  "find_matching_emd sample (sample_image ''u Foo.png'') (ustr ''emd'') = Some (sample_emd ''u.emd'')"
  "find_matching_emd sample (sample_image ''x Bar.tif'') (ustr ''emd'') = Some (sample_emd ''x.emd'')"
  "find_matching_emd sample (sample_image ''b1 Baz.jpg'') (ustr ''emd'') = Some (sample_emd ''b1.emd'')"
  by (simp_all add: path_eval)

lemma sample_h5_open:
  "h5_open sample (sample_emd ''t1.emd'') = Some (sample_container (ustr ''\"AlphaTilt\":\"12.5\"''))"
  "h5_open sample (sample_emd ''t2.emd'') = Some (sample_container (ustr ''\"alphaTilt\": \"-12.5\"''))"
  "h5_open sample (sample_emd ''t3.emd'') = Some (sample_container (ustr ''\"alphatilt\": 0''))"
  "h5_open sample (sample_emd ''t4.emd'') = Some (sample_container (ustr ''\"ALPHATILT\" : \"0.0\"''))"
  "h5_open sample (sample_emd ''u.emd'') = Some (sample_container unicode_minus_text)"
  "h5_open sample (sample_emd ''b1.emd'') = Some (sample_container (ustr ''\"alphaTilt\": 3''))"
  "h5_open sample (sample_emd ''x.emd'') = None"
  by (simp_all add: sample_def sample_emd_def ustr_def)

lemma to_float_sample: "to_float sample = (\<lambda>q. q)"
  by (simp add: sample_def)

lemma sample_extract:
  "extract_alpha_tilt_from_emd sample (sample_emd ''t1.emd'') = Inr (Some (25 / 2))"
  "extract_alpha_tilt_from_emd sample (sample_emd ''t2.emd'') = Inr (Some (- (25 / 2)))"
  "extract_alpha_tilt_from_emd sample (sample_emd ''t3.emd'') = Inr (Some 0)"
  "extract_alpha_tilt_from_emd sample (sample_emd ''t4.emd'') = Inr (Some 0)"
  "extract_alpha_tilt_from_emd sample (sample_emd ''u.emd'') = Inr None"
  "extract_alpha_tilt_from_emd sample (sample_emd ''b1.emd'') = Inr (Some 3)"
  "extract_alpha_tilt_from_emd sample (sample_emd ''x.emd'') = Inl (H5OpenError (sample_emd ''x.emd''))"
  by (simp_all add: extract_alpha_tilt_from_emd_def sample_h5_open visit_sample_container
      to_float_sample search_quoted_negative search_quoted_positive search_bare_zero
      search_upper_zero search_bare_three search_unicode_minus float_negative float_positive
      float_zero float_zero_dot float_three float_unicode_minus)

lemma sample_image_open:
  "image_open sample (sample_image ''t1 Foo.png'') = Some (Array2 (1, 1) [1])"
  "image_open sample (sample_image ''t2 Foo.png'') = Some (Array2 (1, 1) [2])"
  "image_open sample (sample_image ''t3 Foo.png'') = Some (Array2 (1, 1) [3])"
  "image_open sample (sample_image ''t4 Foo.png'') = Some (Array2 (1, 1) [4])"
  "image_open sample (sample_image ''b1 Baz.jpg'') = None"
  by (simp_all add: sample_def sample_image_def ustr_def)

lemma sample_load_foo:
  "fst (load_images_sorted_by_alpha sample foo_files (ustr ''emd'') log_cb progress_cb None s) =
     Inr (Some [Array2 (1, 1) [2], Array2 (1, 1) [3], Array2 (1, 1) [4], Array2 (1, 1) [1]])"
  by (simp add: load_images_sorted_by_alpha_def foo_files_def poll_def sample_find
      sample_extract sample_image_open np_stack_def)


lemma sample_scan:
  "scan_images sample (ustr ''imgs'') =
     [sample_image ''t1 Foo.png'', sample_image ''t2 Foo.png'', sample_image ''t3 Foo.png'',
      sample_image ''t4 Foo.png'', sample_image ''t5 Foo.png'', sample_image ''u Foo.png'',
      sample_image ''b1 Baz.jpg'', sample_image ''x Bar.tif'']"
  by (simp add: scan_images_def glob_ext_def image_exts_def sample_def sample_entries_def
      sample_image_def ustr_def suffix_to_prefix)

lemma sample_classify:
  "extract_source_from_filename (name (sample_image ''t1 Foo.png'')) = ustr ''Foo''"
  "extract_source_from_filename (name (sample_image ''t2 Foo.png'')) = ustr ''Foo''"
  "extract_source_from_filename (name (sample_image ''t3 Foo.png'')) = ustr ''Foo''"
  "extract_source_from_filename (name (sample_image ''t4 Foo.png'')) = ustr ''Foo''"
  "extract_source_from_filename (name (sample_image ''t5 Foo.png'')) = ustr ''Foo''"
  "extract_source_from_filename (name (sample_image ''u Foo.png'')) = ustr ''Foo''"
  "extract_source_from_filename (name (sample_image ''b1 Baz.jpg'')) = ustr ''Baz''"
  "extract_source_from_filename (name (sample_image ''x Bar.tif'')) = ustr ''Bar''"
  by (simp_all add: extract_source_from_filename_def path_name_def name_stem_def py_split_def
      py_isspace_def sample_image_def ustr_def)

lemma sample_groups:
  "group_images_by_source sample (ustr ''imgs'') (ustr ''Foo'') = Some foo_files"
  "group_images_by_source sample (ustr ''imgs'') (ustr ''Baz'') = Some [sample_image ''b1 Baz.jpg'']"
  "group_images_by_source sample (ustr ''imgs'') (ustr ''Bar'') = Some [sample_image ''x Bar.tif'']"
  unfolding group_lookup sample_scan
  by (simp_all add: sample_classify foo_files_def ustr_def)

section \<open>Claims\<close>

text \<open>
  C10. For every filename, the source identifier returned by the Filename Classifier
  contains no whitespace character; consequently replacing spaces by underscores, as the
  output-naming step does, leaves every classifier-derived identifier unchanged.
\<close>

theorem classifier_source_no_whitespace:
  "(\<forall>c \<in> set (extract_source_from_filename f). \<not> py_isspace c) \<and>
   replace_space (extract_source_from_filename f) = extract_source_from_filename f"
proof -
  have ws: "\<forall>c \<in> set (extract_source_from_filename f). \<not> py_isspace c"
    using extract_source_no_space by blast
  have "py_isspace 32" by (simp add: py_isspace_def)
  with ws have "32 \<notin> set (extract_source_from_filename f)" by blast
  then show ?thesis using ws replace_space_id by blast
qed

theorem classifier_source_no_whitespace_witness:
  "extract_source_from_filename (ustr ''scan 01 sample A1.png'') = ustr ''A1'' \<and>
   \<not> py_isspace (of_char CHR ''A'') \<and> \<not> py_isspace (of_char CHR ''1'') \<and>
   replace_space (ustr ''A1'') = ustr ''A1''"
proof -
  have e: "extract_source_from_filename (ustr ''scan 01 sample A1.png'') = ustr ''A1''"
    by (simp add: extract_source_from_filename_def path_name_def name_stem_def py_split_def
        ustr_def py_isspace_def)
  show ?thesis
    using classifier_source_no_whitespace [of "ustr ''scan 01 sample A1.png''"]
    unfolding e by (simp add: e ustr_def)
qed

text \<open>
  C1. When the Stack Assembler returns a volume (the group was assembled, so no poll was
  answered by a cancellation), its slices are the decoded images of the matched images of
  the group, ordered ascending by extracted angle, images of equal angle in their order in
  the input sequence: the slices decode a permutation of the matched records that is
  sorted by angle and keeps, for every angle, the records of that angle in input order.
\<close>

theorem volume_sorted_by_tilt:
  assumes "fst (load_images_sorted_by_alpha w image_files emd_dir log_cb progress_cb cancel_flag s)
      = Inr (Some volume)"
  shows "\<exists>recs. mset recs = mset (matched_images w emd_dir image_files) \<and>
      sorted (map fst recs) \<and>
      (\<forall>a. filter (\<lambda>r. fst r = a) recs =
           filter (\<lambda>r. fst r = a) (matched_images w emd_dir image_files)) \<and>
      map (\<lambda>r. image_open w (snd r)) recs = map Some volume"
proof -
  let ?m = "matched_images w emd_dir image_files"
  have "mset (sort_key fst ?m) = mset ?m" by simp
  moreover have "sorted (map fst (sort_key fst ?m))" by simp
  moreover have "\<forall>a. filter (\<lambda>r. fst r = a) (sort_key fst ?m) = filter (\<lambda>r. fst r = a) ?m"
    by (simp add: sort_key_stable)
  moreover have "map (\<lambda>r. image_open w (snd r)) (sort_key fst ?m) = map Some volume"
    using load_volume [OF assms] by simp
  ultimately show ?thesis by blast
qed

theorem volume_sorted_by_tilt_witness:
  "fst (load_images_sorted_by_alpha sample foo_files (ustr ''emd'')
          (None :: (log_msg \<Rightarrow> signal) option) None None start) =
     Inr (Some [Array2 (1, 1) [2], Array2 (1, 1) [3], Array2 (1, 1) [4], Array2 (1, 1) [1]]) \<and>
   (\<exists>recs. mset recs = mset (matched_images sample (ustr ''emd'') foo_files) \<and>
      sorted (map fst recs) \<and>
      (\<forall>a. filter (\<lambda>r. fst r = a) recs =
           filter (\<lambda>r. fst r = a) (matched_images sample (ustr ''emd'') foo_files)) \<and>
      map (\<lambda>r. image_open sample (snd r)) recs =
        map Some [Array2 (1, 1) [2], Array2 (1, 1) [3], Array2 (1, 1) [4], Array2 (1, 1) [1]])"
proof -
  have h: "fst (load_images_sorted_by_alpha sample foo_files (ustr ''emd'')
          (None :: (log_msg \<Rightarrow> signal) option) None None start) =
     Inr (Some [Array2 (1, 1) [2], Array2 (1, 1) [3], Array2 (1, 1) [4], Array2 (1, 1) [1]])"
    by (rule sample_load_foo)
  from volume_sorted_by_tilt [OF h] h show ?thesis by blast
qed

text \<open>
  C2. The pattern accepts the key in any letter case and the value with or without quotes,
  and accepts U+2212 before the digits; but \<open>float()\<close> does not take U+2212 for a sign, the
  \<open>ValueError\<close> it raises is swallowed by the visitor, and the extractor answers "not
  found" for a negative angle written with U+2212, where the metadata text
  \<open>"AlphaTilt": "M12.5"\<close> (M the sign U+2212) should give -12.5.
\<close>

theorem unicode_minus_not_parsed:
  "re_search unicode_minus_text = Some (8722 # ustr ''12.5'') \<and>
   float_of_group (to_float sample) (8722 # ustr ''12.5'') = None \<and>
   extract_alpha_tilt_from_emd sample (sample_emd ''u.emd'') = Inr None \<and>
   extract_alpha_tilt_from_emd sample (sample_emd ''t2.emd'') = Inr (Some (- (25 / 2))) \<and>
   extract_alpha_tilt_from_emd sample (sample_emd ''t1.emd'') = Inr (Some (25 / 2))"
  by (simp add: search_unicode_minus float_unicode_minus sample_extract)

text \<open>
  C3 as stated fails: a container that exists but cannot be opened makes the extractor
  raise, and the Stack Assembler that called it raises in turn.
\<close>

theorem extractor_open_failure_counterexample:
  "h5_open sample (sample_emd ''x.emd'') = None \<and>
   extract_alpha_tilt_from_emd sample (sample_emd ''x.emd'') =
     Inl (H5OpenError (sample_emd ''x.emd'')) \<and>
   fst (load_images_sorted_by_alpha sample [sample_image ''x Bar.tif''] (ustr ''emd'')
          (None :: (log_msg \<Rightarrow> signal) option) None None start) =
     Inl (H5OpenError (sample_emd ''x.emd''))"
  by (simp add: sample_h5_open sample_extract load_images_sorted_by_alpha_def poll_def
      sample_find)

text \<open>
  C3, amended. For every container that can be opened, the Angle Extractor returns a
  parsed angle or "not found" and raises nothing: a returned angle is the float of the
  group captured in the text of a dataset whose name contains \<open>metadata\<close>. When the
  container cannot be opened, the error of the open is not caught and reaches the caller.
\<close>

theorem extractor_outcomes:
  "(h5_open w p = None \<longrightarrow> extract_alpha_tilt_from_emd w p = Inl (H5OpenError p)) \<and>
   (\<forall>f. h5_open w p = Some f \<longrightarrow>
      (\<exists>r. extract_alpha_tilt_from_emd w p = Inr r \<and>
           (\<forall>a. r = Some a \<longrightarrow>
              (\<exists>nm text g. (nm, Dataset (Some text)) \<in> set f \<and> has_metadata nm \<and>
                  re_search text = Some g \<and> float_of_group (to_float w) g = Some a))))"
proof (intro conjI allI impI)
  assume "h5_open w p = None"
  then show "extract_alpha_tilt_from_emd w p = Inl (H5OpenError p)"
    by (simp add: extract_alpha_tilt_from_emd_def)
next
  fix f assume "h5_open w p = Some f"
  then have "extract_alpha_tilt_from_emd w p = Inr (foldl (visitor (to_float w)) None f)"
    by (simp add: extract_alpha_tilt_from_emd_def)
  then show "\<exists>r. extract_alpha_tilt_from_emd w p = Inr r \<and>
           (\<forall>a. r = Some a \<longrightarrow>
              (\<exists>nm text g. (nm, Dataset (Some text)) \<in> set f \<and> has_metadata nm \<and>
                  re_search text = Some g \<and> float_of_group (to_float w) g = Some a))"
    using visit_all_found [of "to_float w" f] by auto
qed

theorem extractor_outcomes_witness:
  "h5_open sample (sample_emd ''x.emd'') = None \<and>
   extract_alpha_tilt_from_emd sample (sample_emd ''x.emd'') =
     Inl (H5OpenError (sample_emd ''x.emd'')) \<and>
   h5_open sample (sample_emd ''t2.emd'') =
     Some (sample_container (ustr ''\"alphaTilt\": \"-12.5\"'')) \<and>
   (\<exists>r. extract_alpha_tilt_from_emd sample (sample_emd ''t2.emd'') = Inr r \<and> r = Some (- (25 / 2)))"
proof -
  have a: "h5_open sample (sample_emd ''x.emd'') = None" by (simp add: sample_h5_open)
  have b: "h5_open sample (sample_emd ''t2.emd'') =
     Some (sample_container (ustr ''\"alphaTilt\": \"-12.5\"''))" by (simp add: sample_h5_open)
  from extractor_outcomes [of sample "sample_emd ''x.emd''"] a
  have c: "extract_alpha_tilt_from_emd sample (sample_emd ''x.emd'') =
     Inl (H5OpenError (sample_emd ''x.emd''))" by blast
  from extractor_outcomes [of sample "sample_emd ''t2.emd''"] b
  obtain r where "extract_alpha_tilt_from_emd sample (sample_emd ''t2.emd'') = Inr r" by blast
  then have "\<exists>r. extract_alpha_tilt_from_emd sample (sample_emd ''t2.emd'') = Inr r \<and>
      r = Some (- (25 / 2))"
    by (simp add: sample_extract)
  with a b c show ?thesis by blast
qed



text \<open>
  C6. For an image whose stem has fewer than two whitespace tokens the Metadata Locator
  returns "not found", whatever the metadata directory holds. For a stem of two or more
  tokens it looks up exactly one path: the file under the metadata directory whose name is
  a stem followed by \<open>.emd\<close>, where that stem splits back into the tokens without the
  last, has no character beyond those tokens and one separator between neighbours, and
  has no white space other than U+0020 (the remaining tokens rejoined with single
  spaces). It returns that path when it exists and "not found" when it does not, and two
  file systems that agree on the existence of that one path get the same answer.
\<close>

theorem locator_contract:
  "(length (py_split (name_stem (name img))) < 2 \<longrightarrow> find_matching_emd w img emd_dir = None) \<and>
   (2 \<le> length (py_split (name_stem (name img))) \<longrightarrow>
      parent (expected_container emd_dir img) = emd_dir \<and>
      (\<exists>stem. name (expected_container emd_dir img) = stem @ ustr ''.emd'' \<and>
         py_split stem = butlast (py_split (name_stem (name img))) \<and>
         length stem = sum_list (map length (butlast (py_split (name_stem (name img))))) +
           (length (py_split (name_stem (name img))) - 2) \<and>
         (\<forall>c \<in> set stem. py_isspace c \<longrightarrow> c = 32)) \<and>
      (path_exists w (expected_container emd_dir img) \<longrightarrow>
         find_matching_emd w img emd_dir = Some (expected_container emd_dir img)) \<and>
      (\<not> path_exists w (expected_container emd_dir img) \<longrightarrow>
         find_matching_emd w img emd_dir = None) \<and>
      (path_exists w' (expected_container emd_dir img) =
         path_exists w (expected_container emd_dir img) \<longrightarrow>
         find_matching_emd w' img emd_dir = find_matching_emd w img emd_dir))"
proof (intro conjI impI)
  assume "length (py_split (name_stem (name img))) < 2"
  then show "find_matching_emd w img emd_dir = None"
    by (simp add: find_matching_emd_def Let_def)
next
  show "parent (expected_container emd_dir img) = emd_dir"
    by (simp add: expected_container_def)
next
  assume two: "2 \<le> length (py_split (name_stem (name img)))"
  let ?ts = "butlast (py_split (name_stem (name img)))"
  let ?stem = "py_join [32] ?ts"
  have good: "\<forall>t \<in> set ?ts. t \<noteq> [] \<and> (\<forall>c \<in> set t. \<not> py_isspace c)"
    using butlast_tokens by blast
  from two have ne: "?ts \<noteq> []" by (cases "py_split (name_stem (name img))") auto
  have a: "name (expected_container emd_dir img) = ?stem @ ustr ''.emd''"
    by (simp add: expected_container_def)
  have b: "py_split ?stem = ?ts" using good by (rule split_join)
  have "length ?stem = sum_list (map length ?ts) + (length ?ts - 1)"
    using ne by (rule length_join)
  then have c: "length ?stem = sum_list (map length ?ts) +
      (length (py_split (name_stem (name img))) - 2)"
    by simp
  have d: "\<forall>c \<in> set ?stem. py_isspace c \<longrightarrow> c = 32"
    using good join_spaces [of ?ts] by blast
  from a b c d
  show "\<exists>stem. name (expected_container emd_dir img) = stem @ ustr ''.emd'' \<and>
         py_split stem = butlast (py_split (name_stem (name img))) \<and>
         length stem = sum_list (map length (butlast (py_split (name_stem (name img))))) +
           (length (py_split (name_stem (name img))) - 2) \<and>
         (\<forall>c \<in> set stem. py_isspace c \<longrightarrow> c = 32)"
    by blast
next
  assume "2 \<le> length (py_split (name_stem (name img)))"
    and "path_exists w (expected_container emd_dir img)"
  then show "find_matching_emd w img emd_dir = Some (expected_container emd_dir img)"
    by (simp add: find_matching_emd_def expected_container_def Let_def)
next
  assume "2 \<le> length (py_split (name_stem (name img)))"
    and "\<not> path_exists w (expected_container emd_dir img)"
  then show "find_matching_emd w img emd_dir = None"
    by (simp add: find_matching_emd_def expected_container_def Let_def)
next
  assume "2 \<le> length (py_split (name_stem (name img)))"
    and "path_exists w' (expected_container emd_dir img) =
         path_exists w (expected_container emd_dir img)"
  then show "find_matching_emd w' img emd_dir = find_matching_emd w img emd_dir"
    by (simp add: find_matching_emd_def expected_container_def Let_def)
qed

theorem locator_contract_witness:
  "length (py_split (name_stem (name (sample_image ''A1.png'')))) < 2 \<and>
   path_exists sample (expected_container (ustr ''emd'') (sample_image ''A1.png'')) \<and>
   find_matching_emd sample (sample_image ''A1.png'') (ustr ''emd'') = None \<and>
   py_split (name_stem (name (sample_image ''s 01 Foo.png''))) = [ustr ''s'', ustr ''01'', ustr ''Foo''] \<and>
   expected_container (ustr ''emd'') (sample_image ''s 01 Foo.png'') = sample_emd ''s 01.emd'' \<and>
   find_matching_emd sample (sample_image ''s 01 Foo.png'') (ustr ''emd'') =
     Some (sample_emd ''s 01.emd'') \<and>
   (\<exists>stem. name (expected_container (ustr ''emd'') (sample_image ''s 01 Foo.png'')) =
        stem @ ustr ''.emd'' \<and>
      py_split stem = [ustr ''s'', ustr ''01''] \<and> length stem = 4) \<and>
   2 \<le> length (py_split (name_stem (name (sample_image ''t5 Foo.png'')))) \<and>
   find_matching_emd sample (sample_image ''t5 Foo.png'') (ustr ''emd'') = None"
proof -
  have a: "length (py_split (name_stem (name (sample_image ''A1.png'')))) < 2"
    by (simp add: name_stem_def py_split_def py_isspace_def sample_image_def ustr_def)
  have a': "path_exists sample (expected_container (ustr ''emd'') (sample_image ''A1.png''))"
    by (simp add: expected_container_def name_stem_def py_split_def py_isspace_def
        sample_image_def ustr_def sample_def)
  have t: "py_split (name_stem (name (sample_image ''s 01 Foo.png''))) =
      [ustr ''s'', ustr ''01'', ustr ''Foo'']"
    by (simp add: name_stem_def py_split_def py_isspace_def sample_image_def ustr_def)
  then have b: "2 \<le> length (py_split (name_stem (name (sample_image ''s 01 Foo.png''))))"
    by simp
  have b': "expected_container (ustr ''emd'') (sample_image ''s 01 Foo.png'') = sample_emd ''s 01.emd''"
    unfolding expected_container_def t by (simp add: sample_emd_def ustr_def)
  have b'': "path_exists sample (sample_emd ''s 01.emd'')"
    by (simp add: sample_def sample_emd_def ustr_def)
  have c: "2 \<le> length (py_split (name_stem (name (sample_image ''t5 Foo.png''))))"
    by (simp add: name_stem_def py_split_def py_isspace_def sample_image_def ustr_def)
  have c': "\<not> path_exists sample (expected_container (ustr ''emd'') (sample_image ''t5 Foo.png''))"
    by (simp add: expected_container_def name_stem_def py_split_def py_isspace_def
        sample_image_def ustr_def sample_def)
  from locator_contract [of "sample_image ''A1.png''" sample "ustr ''emd''" sample] a
  have r1: "find_matching_emd sample (sample_image ''A1.png'') (ustr ''emd'') = None" by blast
  note l2 = locator_contract [of "sample_image ''s 01 Foo.png''" sample "ustr ''emd''" sample]
  from l2 b b' b''
  have r2: "find_matching_emd sample (sample_image ''s 01 Foo.png'') (ustr ''emd'') =
      Some (sample_emd ''s 01.emd'')" by simp
  from l2 b obtain stem where
    "name (expected_container (ustr ''emd'') (sample_image ''s 01 Foo.png'')) = stem @ ustr ''.emd''"
    "py_split stem = butlast (py_split (name_stem (name (sample_image ''s 01 Foo.png''))))"
    "length stem =
       sum_list (map length (butlast (py_split (name_stem (name (sample_image ''s 01 Foo.png'')))))) +
       (length (py_split (name_stem (name (sample_image ''s 01 Foo.png'')))) - 2)"
    by blast
  then have r2': "\<exists>stem. name (expected_container (ustr ''emd'') (sample_image ''s 01 Foo.png'')) =
        stem @ ustr ''.emd'' \<and>
      py_split stem = [ustr ''s'', ustr ''01''] \<and> length stem = 4"
    unfolding t by (auto simp: ustr_def)
  from locator_contract [of "sample_image ''t5 Foo.png''" sample "ustr ''emd''" sample] c c'
  have r3: "find_matching_emd sample (sample_image ''t5 Foo.png'') (ustr ''emd'') = None" by blast
  from a a' r1 t b' r2 r2' c r3 show ?thesis by blast
qed




text \<open>
  C4. If the cancellation predicate answers true at a poll point, the Stack Assembler
  returns "no result" at once. At the head of either loop a true answer ends the call
  with nothing emitted after the poll; whenever any poll made by a call is answered true
  the call returns None, so no partial volume is produced; a true answer before the first
  image gives None with no callback called at all. In the worker a None result writes no
  file: with a predicate that stays true once it is true, a group whose assembly was
  cancelled leaves the files written so far as they were and ends the loop.
\<close>

theorem cancellation_returns_none:
  "(c (polls s) \<longrightarrow>
      collect_tilts w emd_dir log_cb progress_cb (Some c) total_files idx (img # rest) records s =
        (ReturnedNone, s\<lparr>polls := Suc (polls s)\<rparr>)) \<and>
   (c (polls s) \<longrightarrow>
      stack_images w progress_cb (Some c) n j ((alpha, img) # recs) stack s =
        (ReturnedNone, s\<lparr>polls := Suc (polls s)\<rparr>)) \<and>
   (polls s \<le> k \<and>
    k < polls (snd (load_images_sorted_by_alpha w image_files emd_dir log_cb progress_cb (Some c) s)) \<and>
    c k \<longrightarrow>
      fst (load_images_sorted_by_alpha w image_files emd_dir log_cb progress_cb (Some c) s) = Inr None) \<and>
   (c (polls s) \<and> image_files \<noteq> [] \<longrightarrow>
      load_images_sorted_by_alpha w image_files emd_dir log_cb progress_cb (Some c) s =
        (Inr None, s\<lparr>polls := Suc (polls s)\<rparr>)) \<and>
   ((\<forall>a b. c a \<and> a \<le> b \<longrightarrow> c b) \<and> \<not> c (polls s0) \<and>
    (case groups source of None \<Rightarrow> [] | Some fs \<Rightarrow> fs) = files \<and>
    Suc (polls s0) \<le> k0 \<and>
    k0 < polls (snd (load_images_sorted_by_alpha w files emd_dir (Some Log)
           (Some (Progress i total_sources)) (Some c)
           (emit (Some Log) (ProcessingSource source (length files))
              (s0\<lparr>polls := Suc (polls s0)\<rparr>)))) \<and>
    c k0 \<longrightarrow>
      (\<exists>s'. worker_loop w groups emd_dir output_dir c total_sources i (source # sources) written s0
          = (None, written, s')))"
proof (intro conjI impI)
  assume "c (polls s)"
  then show "collect_tilts w emd_dir log_cb progress_cb (Some c) total_files idx (img # rest) records s =
        (ReturnedNone, s\<lparr>polls := Suc (polls s)\<rparr>)"
    by (rule collect_tilts_cancelled)
next
  assume "c (polls s)"
  then show "stack_images w progress_cb (Some c) n j ((alpha, img) # recs) stack s =
        (ReturnedNone, s\<lparr>polls := Suc (polls s)\<rparr>)"
    by (rule stack_images_cancelled)
next
  assume a: "polls s \<le> k \<and>
    k < polls (snd (load_images_sorted_by_alpha w image_files emd_dir log_cb progress_cb (Some c) s)) \<and>
    c k"
  obtain r s' where l: "load_images_sorted_by_alpha w image_files emd_dir log_cb progress_cb
      (Some c) s = (r, s')" by force
  with a have "polls s \<le> k" "k < polls s'" "c k" by simp_all
  from load_polls [OF l this] l
  show "fst (load_images_sorted_by_alpha w image_files emd_dir log_cb progress_cb (Some c) s) = Inr None"
    by simp
next
  assume "c (polls s) \<and> image_files \<noteq> []"
  then show "load_images_sorted_by_alpha w image_files emd_dir log_cb progress_cb (Some c) s =
        (Inr None, s\<lparr>polls := Suc (polls s)\<rparr>)"
    using load_cancelled_first by blast
next
  assume a: "(\<forall>a b. c a \<and> a \<le> b \<longrightarrow> c b) \<and> \<not> c (polls s0) \<and>
    (case groups source of None \<Rightarrow> [] | Some fs \<Rightarrow> fs) = files \<and>
    Suc (polls s0) \<le> k0 \<and>
    k0 < polls (snd (load_images_sorted_by_alpha w files emd_dir (Some Log)
           (Some (Progress i total_sources)) (Some c)
           (emit (Some Log) (ProcessingSource source (length files))
              (s0\<lparr>polls := Suc (polls s0)\<rparr>)))) \<and>
    c k0"
  then show "\<exists>s'. worker_loop w groups emd_dir output_dir c total_sources i (source # sources)
      written s0 = (None, written, s')"
    using worker_loop_cancel_no_write [of c s0 groups source files k0 w emd_dir i total_sources]
    by blast
qed

theorem cancellation_returns_none_witness:
  "load_images_sorted_by_alpha sample foo_files (ustr ''emd'') (Some Log) (Some (Progress 0 1))
      (Some (\<lambda>n. True)) start = (Inr None, \<lparr>trace = [], polls = 1\<rparr>) \<and>
   snd (load_images_sorted_by_alpha sample foo_files (ustr ''emd'') (Some Log) (Some (Progress 0 1))
      (Some (\<lambda>n. 2 \<le> n)) start) =
     \<lparr>trace = [Progress 0 1 (Collected 1 6), Progress 0 1 (Collected 2 6)], polls = 3\<rparr> \<and>
   fst (load_images_sorted_by_alpha sample foo_files (ustr ''emd'') (Some Log) (Some (Progress 0 1))
      (Some (\<lambda>n. 2 \<le> n)) start) = Inr None \<and>
   (\<exists>s'. worker_loop sample (group_images_by_source sample (ustr ''imgs'')) (ustr ''emd'')
      (ustr ''out'') (\<lambda>n. 1 \<le> n) 2 0 [ustr ''Foo'', ustr ''Bar''] [] start = (None, [], s'))"
proof -
  have ne: "foo_files \<noteq> []" by (simp add: foo_files_def)
  let ?s2 = "emit (Some Log) (ProcessingSource (ustr ''Foo'') (length foo_files))
      ((start :: signal effects)\<lparr>polls := Suc (polls (start :: signal effects))\<rparr>)"
  have q: "polls ?s2 = 1" by (simp add: emit_polls start_def)
  have "load_images_sorted_by_alpha sample foo_files (ustr ''emd'') (Some Log)
      (Some (Progress 0 2)) (Some (\<lambda>n. 1 \<le> n)) ?s2 = (Inr None, ?s2\<lparr>polls := Suc (polls ?s2)\<rparr>)"
    using load_cancelled_first [of "\<lambda>n. 1 \<le> n" ?s2 foo_files] ne q by simp
  then have q2: "polls (snd (load_images_sorted_by_alpha sample foo_files (ustr ''emd'') (Some Log)
      (Some (Progress 0 2)) (Some (\<lambda>n. 1 \<le> n)) ?s2)) = 2"
    using q by simp
  have p1: "polls (start :: signal effects) = 0" by (simp add: start_def)
  note w5 = cancellation_returns_none [where c = "\<lambda>n. 1 \<le> n" and ?s0.0 = start
        and groups = "group_images_by_source sample (ustr ''imgs'')" and source = "ustr ''Foo''"
        and files = foo_files and ?k0.0 = 1 and w = sample and emd_dir = "ustr ''emd''"
        and i = 0 and total_sources = 2 and output_dir = "ustr ''out''"
        and sources = "[ustr ''Bar'']" and written = "[]",
        THEN conjunct2, THEN conjunct2, THEN conjunct2, THEN conjunct2]
  have g1: "\<forall>a b. (1::nat) \<le> a \<and> a \<le> b \<longrightarrow> 1 \<le> b" by simp
  have g2: "\<not> 1 \<le> polls (start :: signal effects)" by (simp add: p1)
  have g3: "(case group_images_by_source sample (ustr ''imgs'') (ustr ''Foo'') of
      None \<Rightarrow> [] | Some fs \<Rightarrow> fs) = foo_files" by (simp add: sample_groups)
  have g4: "Suc (polls (start :: signal effects)) \<le> 1" by (simp add: p1)
  have g5: "1 < polls (snd (load_images_sorted_by_alpha sample foo_files (ustr ''emd'') (Some Log)
      (Some (Progress 0 2)) (Some (\<lambda>n. 1 \<le> n)) ?s2))" unfolding q2 by simp
  have g6: "(1::nat) \<le> 1" by simp
  have d: "\<exists>s'. worker_loop sample (group_images_by_source sample (ustr ''imgs'')) (ustr ''emd'')
      (ustr ''out'') (\<lambda>n. 1 \<le> n) 2 0 [ustr ''Foo'', ustr ''Bar''] [] start = (None, [], s')"
    using w5 g1 g2 g3 g4 g5 g6 by blast
  have p0: "polls (start :: signal effects) = 0" by (simp add: start_def)
  have a: "load_images_sorted_by_alpha sample foo_files (ustr ''emd'') (Some Log)
      (Some (Progress 0 1)) (Some (\<lambda>n. True)) start = (Inr None, \<lparr>trace = [], polls = 1\<rparr>)"
    using cancellation_returns_none [of "\<lambda>n. True" start sample "ustr ''emd''" "Some Log"
        "Some (Progress 0 1)" _ _ _ _ _ _ _ _ _ _ _ foo_files] ne
    by (simp add: start_def)
  have b: "snd (load_images_sorted_by_alpha sample foo_files (ustr ''emd'') (Some Log)
      (Some (Progress 0 1)) (Some (\<lambda>n. 2 \<le> n)) start) =
     \<lparr>trace = [Progress 0 1 (Collected 1 6), Progress 0 1 (Collected 2 6)], polls = 3\<rparr>"
    by (simp add: load_images_sorted_by_alpha_def foo_files_def poll_def emit_def start_def
        sample_find sample_extract)
  have c: "fst (load_images_sorted_by_alpha sample foo_files (ustr ''emd'') (Some Log)
      (Some (Progress 0 1)) (Some (\<lambda>n. 2 \<le> n)) start) = Inr None"
    using cancellation_returns_none [of "\<lambda>n. 2 \<le> n" start sample "ustr ''emd''" "Some Log"
        "Some (Progress 0 1)" _ _ _ _ _ _ _ _ _ _ 2 foo_files]
    unfolding b by (simp add: p0)
  from a b c d show ?thesis by blast
qed




text \<open>
  C9. The Stack Assembler is deterministic: its result is a function of the input
  sequence, the metadata directory and the files read. Two runs on the same inputs whose
  cancellation predicates are never true return the same result, whatever the callbacks,
  the predicates and the effects so far are; in particular they return equal volumes.
\<close>

theorem assembler_deterministic:
  assumes "never_cancelled c1" and "never_cancelled c2"
  shows "fst (load_images_sorted_by_alpha w image_files emd_dir l1 p1 c1 s1) =
         fst (load_images_sorted_by_alpha w image_files emd_dir l2 p2 c2 s2)"
  using assms by (rule load_independent)

theorem assembler_deterministic_witness:
  "never_cancelled None \<and> never_cancelled (Some (\<lambda>n. False)) \<and>
   fst (load_images_sorted_by_alpha sample foo_files (ustr ''emd'')
          (None :: (log_msg \<Rightarrow> signal) option) None None start) =
   fst (load_images_sorted_by_alpha sample foo_files (ustr ''emd'')
          (Some Log) (Some (Progress 0 1)) (Some (\<lambda>n. False)) \<lparr>trace = [Finished], polls = 7\<rparr>) \<and>
   fst (load_images_sorted_by_alpha sample foo_files (ustr ''emd'')
          (Some Log) (Some (Progress 0 1)) (Some (\<lambda>n. False)) \<lparr>trace = [Finished], polls = 7\<rparr>) =
     Inr (Some [Array2 (1, 1) [2], Array2 (1, 1) [3], Array2 (1, 1) [4], Array2 (1, 1) [1]])"
proof -
  have a: "never_cancelled None" by (simp add: never_cancelled_def)
  have b: "never_cancelled (Some (\<lambda>n. False))" by (simp add: never_cancelled_def)
  have c: "fst (load_images_sorted_by_alpha sample foo_files (ustr ''emd'')
          (None :: (log_msg \<Rightarrow> signal) option) None None start) =
     Inr (Some [Array2 (1, 1) [2], Array2 (1, 1) [3], Array2 (1, 1) [4], Array2 (1, 1) [1]])"
    by (rule sample_load_foo)
  note d = assembler_deterministic [OF a b, of sample foo_files "ustr ''emd''"
      "None :: (log_msg \<Rightarrow> signal) option" None start "Some Log" "Some (Progress 0 1)"
      "\<lparr>trace = [Finished], polls = 7\<rparr>"]
  from a b c d show ?thesis by simp
qed

end
